theory Spec2Isabelle
  imports Complex_Main "HOL-Library.Word"
begin

section \<open>Data model\<close>

text \<open>
  A JavaScript string is a sequence of UTF-16 code units; \<open>s.length\<close> counts them.

  The numbers that a caller passes in and the library never validates, the options
  \<open>maxPerMessage\<close> and \<open>maxTextLength\<close> and a numeric \<open>replacePosition\<close>, are
  JavaScript numbers (\<open>jsnum\<close>): NaN, the two infinities, or a finite number, which
  may be a fraction. So is everything the library computes from them: the cap, the
  capacity, \<open>desired\<close>, \<open>allowed\<close>, \<open>take\<close> and the loop variables \<open>cursor\<close> and
  \<open>i\<close>. Finite numbers are rationals and arithmetic on them is exact: rounding
  and the sign of zero are not modelled. Lengths, offsets, user ids and the count
  of \<open>buildInvisibleText\<close> are integers.

  \<open>String.prototype.normalize\<close> and the regular-expression engine belong to the
  platform, not to the library. The normaliser is the parameter \<open>nfc\<close> of every
  function that calls \<open>toNFC\<close> (the library itself falls back to the identity where
  \<open>normalize\<close> is missing), and a \<open>RegExp\<close> is the predicate that its \<open>test\<close>
  method computes on a string.

  The examples evaluated below use ASCII letters and the zero-width space U+200B
  only, but for one. All of these are in normal form C already, so the examples
  run with the identity as \<open>nfc\<close>. The one example on a string that
  normalisation changes runs with \<open>nfc_e_acute\<close>, which has the platform's value
  on that string.
\<close>

datatype jsnum = Num rat | NaN | PInf | NInf

type_synonym cu = "16 word"
type_synonym jsstring = "cu list"
type_synonym UserId = int
type_synonym RegExp = "jsstring \<Rightarrow> bool"

datatype ChatId = ChatNum int | ChatStr jsstring

datatype entity_type = text_mention

record MessageEntityTextMention =
  type' :: entity_type
  offset :: int
  length' :: int
  user :: UserId

datatype replace_position = PosStart | PosEnd | PosNum jsnum

datatype fallback_position = FbStart | FbEnd

record GhostTemplate =
  before :: "jsstring option"
  after :: "jsstring option"
  char :: "jsstring option"
  message :: "jsstring option"
  charCandidates :: "jsstring list option"
  replaceTargets :: "jsstring list option"
  replacePosition :: "replace_position option"
  fallbackPosition :: "fallback_position option"
  punctuationRegex :: "RegExp option"
  preferEndIfNoPunctuation :: "bool option"
  separateLineForMentions :: "bool option"
  trailingNewline :: "bool option"

record GhostPayload =
  chat_id :: ChatId
  ptext :: jsstring
  entities :: "MessageEntityTextMention list"

datatype overflow_policy = OvSplit | OvError

record BuildOptions =
  maxPerMessage :: "jsnum option"
  maxTextLength :: "jsnum option"
  onOverflow :: "overflow_policy option"

text \<open>Every \<open>throw\<close> of the library, and the two exceptions the platform can raise in it.\<close>

datatype error =
    InvCharInTemplate jsstring
  | TypeError
  | RangeError
  | LengthMismatch int int
  | SmartBaseTooLong int
  | SmartTextOverflow jsnum jsnum jsnum
  | SmartTextExceeds jsnum
  | ClassicBaseTooLong int jsnum
  | ClassicOverflow int jsnum jsnum
  | ClassicTextExceeds jsnum
  | ClassicOverflowSplitting int

record InvisibleText =
  it_text :: jsstring
  it_offsets :: "int list"
  it_invChar :: jsstring

record SmartBaseText =
  sb_text :: jsstring
  sb_baseLen :: int
  sb_insertAt :: int
  sb_newlineOverhead :: int

section \<open>Platform operations\<close>

text \<open>The operator \<open>a ?? b\<close>.\<close>

definition coalesce :: "'a option \<Rightarrow> 'a \<Rightarrow> 'a" where
  "coalesce a b = (case a of None \<Rightarrow> b | Some v \<Rightarrow> v)"

text \<open>\<open>s.includes(c)\<close>: \<open>c\<close> occurs in \<open>s\<close> as a substring.\<close>

fun js_includes :: "'a list \<Rightarrow> 'a list \<Rightarrow> bool" where
  "js_includes [] c = (c = [])"
| "js_includes (x # xs) c = (take (length c) (x # xs) = c \<or> js_includes xs c)"

text \<open>An integer as a JavaScript number.\<close>

definition jint :: "int \<Rightarrow> jsnum" where
  "jint k = Num (of_int k)"

text \<open>\<open>a + b\<close>, \<open>-a\<close> and \<open>a - b\<close>.\<close>

fun js_add :: "jsnum \<Rightarrow> jsnum \<Rightarrow> jsnum" where
  "js_add (Num a) (Num b) = Num (a + b)"
| "js_add NaN _ = NaN"
| "js_add _ NaN = NaN"
| "js_add PInf NInf = NaN"
| "js_add NInf PInf = NaN"
| "js_add PInf _ = PInf"
| "js_add _ PInf = PInf"
| "js_add NInf _ = NInf"
| "js_add _ NInf = NInf"

fun js_neg :: "jsnum \<Rightarrow> jsnum" where
  "js_neg (Num a) = Num (- a)"
| "js_neg NaN = NaN"
| "js_neg PInf = NInf"
| "js_neg NInf = PInf"

definition js_sub :: "jsnum \<Rightarrow> jsnum \<Rightarrow> jsnum" where
  "js_sub a b = js_add a (js_neg b)"

text \<open>\<open>a < b\<close>, \<open>a <= b\<close> and \<open>a > b\<close>: every comparison with NaN is false.\<close>

fun js_lt :: "jsnum \<Rightarrow> jsnum \<Rightarrow> bool" where
  "js_lt (Num a) (Num b) = (a < b)"
| "js_lt NaN _ = False"
| "js_lt _ NaN = False"
| "js_lt NInf NInf = False"
| "js_lt NInf _ = True"
| "js_lt _ NInf = False"
| "js_lt PInf _ = False"
| "js_lt _ PInf = True"

definition js_le :: "jsnum \<Rightarrow> jsnum \<Rightarrow> bool" where
  "js_le a b = (js_lt a b \<or> (a = b \<and> a \<noteq> NaN))"

definition js_gt :: "jsnum \<Rightarrow> jsnum \<Rightarrow> bool" where
  "js_gt a b = js_lt b a"

text \<open>\<open>Math.min(a, b)\<close> and \<open>Math.max(a, b)\<close>: NaN when an argument is NaN.\<close>

definition js_min :: "jsnum \<Rightarrow> jsnum \<Rightarrow> jsnum" where
  "js_min a b = (if a = NaN \<or> b = NaN then NaN else if js_lt b a then b else a)"

definition js_max :: "jsnum \<Rightarrow> jsnum \<Rightarrow> jsnum" where
  "js_max a b = (if a = NaN \<or> b = NaN then NaN else if js_lt a b then b else a)"

text \<open>\<open>Math.trunc\<close> on a finite number: rounding towards zero.\<close>

definition js_trunc :: "rat \<Rightarrow> int" where
  "js_trunc r = (if 0 \<le> r then \<lfloor>r\<rfloor> else \<lceil>r\<rceil>)"

text \<open>
  \<open>xs.slice(start, end)\<close> on arrays and strings. An index is first made an integer
  or an infinity (NaN becomes 0, a fraction is truncated); a negative index counts
  from the end, and both indices are clamped to the length.
\<close>

definition slice_index :: "nat \<Rightarrow> jsnum \<Rightarrow> nat" where
  "slice_index len k =
     (case k of
        NaN \<Rightarrow> 0
      | NInf \<Rightarrow> 0
      | PInf \<Rightarrow> len
      | Num r \<Rightarrow>
          (let t = js_trunc r
           in if t < 0 then nat (max (int len + t) 0) else nat (min t (int len))))"

definition js_slice :: "'a list \<Rightarrow> jsnum \<Rightarrow> jsnum \<Rightarrow> 'a list" where
  "js_slice xs start end =
     (let from = slice_index (length xs) start; to = slice_index (length xs) end
      in take (to - from) (drop from xs))"

text \<open>\<open>xs.slice(start)\<close>: the end defaults to the length.\<close>

definition js_slice_from :: "'a list \<Rightarrow> jsnum \<Rightarrow> 'a list" where
  "js_slice_from xs start = js_slice xs start (jint (int (length xs)))"

text \<open>\<open>s.repeat(count)\<close> for a count that is not negative.\<close>

definition js_repeat :: "jsstring \<Rightarrow> int \<Rightarrow> jsstring" where
  "js_repeat s count = concat (replicate (nat count) s)"

section \<open>The library\<close>

definition DEFAULT_INV_CANDIDATES :: "jsstring list" where
  "DEFAULT_INV_CANDIDATES = [[0x200B], [0x2063], [0x2060], [0x200C], [0x200D]]"

text \<open>\<open>/[.!?\<dots>]/\<close>: the string has one of the four punctuation characters.\<close>

definition DEFAULT_PUNCT_RE :: RegExp where
  "DEFAULT_PUNCT_RE s = list_ex (\<lambda>c. c = 0x2E \<or> c = 0x21 \<or> c = 0x3F \<or> c = 0x2026) s"

definition DEFAULT_MAX_TEXT :: jsnum where
  "DEFAULT_MAX_TEXT = jint 4096"

text \<open>
  \<open>assertNoExistingInv\<close>. When \<open>inv\<close> is the empty string, \<open>s.includes(inv)\<close> is
  true and \<open>inv.codePointAt(0)\<close> is undefined, so building the message raises a
  TypeError instead of the library's own error.
\<close>

definition assertNoExistingInv :: "jsstring \<Rightarrow> jsstring \<Rightarrow> error + unit" where
  "assertNoExistingInv s inv' =
     (if js_includes s inv'
      then (if inv' = [] then Inl TypeError else Inl (InvCharInTemplate inv'))
      else Inr ())"

text \<open>
  \<open>pickInvChar\<close>: the loop over the candidates, then the fallback
  \<open>candidates[0]\<close>, or the zero-width space U+200B for an empty list.
\<close>

fun pickInvChar_loop :: "jsstring list \<Rightarrow> jsstring option list \<Rightarrow> jsstring option" where
  "pickInvChar_loop [] avoidIn = None"
| "pickInvChar_loop (c # cs) avoidIn =
     (if length c \<noteq> 1 then pickInvChar_loop cs avoidIn
      else if \<not> list_ex (\<lambda>s. case s of None \<Rightarrow> False | Some s' \<Rightarrow> js_includes s' c) avoidIn
      then Some c
      else pickInvChar_loop cs avoidIn)"

definition pickInvChar :: "jsstring list \<Rightarrow> jsstring option list \<Rightarrow> jsstring" where
  "pickInvChar candidates avoidIn =
     (case pickInvChar_loop candidates avoidIn of
        Some c \<Rightarrow> c
      | None \<Rightarrow> (case candidates of [] \<Rightarrow> [0x200B] | c0 # _ \<Rightarrow> c0))"

text \<open>
  \<open>pickInvChar\<close> as \<open>src/index.ts\<close> has it: no length filter, and the fallback
  \<open>candidates[0]\<close> is \<open>undefined\<close> (here \<open>None\<close>) for an empty list.
\<close>

fun pickInvChar_index_loop :: "jsstring list \<Rightarrow> jsstring option list \<Rightarrow> jsstring option" where
  "pickInvChar_index_loop [] avoidIn = None"
| "pickInvChar_index_loop (c # cs) avoidIn =
     (if \<not> list_ex (\<lambda>s. case s of None \<Rightarrow> False | Some s' \<Rightarrow> js_includes s' c) avoidIn
      then Some c
      else pickInvChar_index_loop cs avoidIn)"

definition pickInvChar_index :: "jsstring list \<Rightarrow> jsstring option list \<Rightarrow> jsstring option" where
  "pickInvChar_index candidates avoidIn =
     (case pickInvChar_index_loop candidates avoidIn of
        Some c \<Rightarrow> Some c
      | None \<Rightarrow> (case candidates of [] \<Rightarrow> None | c0 # _ \<Rightarrow> Some c0))"

text \<open>\<open>buildInvisibleText\<close> (classic): \<open>before + INV.repeat(N) + after\<close>.\<close>

definition buildInvisibleText ::
  "(jsstring \<Rightarrow> jsstring) \<Rightarrow> int \<Rightarrow> GhostTemplate \<Rightarrow> error + InvisibleText" where
  "buildInvisibleText nfc count template =
     (let charList = coalesce (charCandidates template) DEFAULT_INV_CANDIDATES;
          inv' = (case char template of
                   Some c \<Rightarrow> c
                 | None \<Rightarrow> pickInvChar charList [before template, after template]);
          before' = nfc (coalesce (before template) []);
          after' = nfc (coalesce (after template) [])
      in case assertNoExistingInv before' inv' of
           Inl e \<Rightarrow> Inl e
         | Inr _ \<Rightarrow>
             (case assertNoExistingInv after' inv' of
                Inl e \<Rightarrow> Inl e
              | Inr _ \<Rightarrow>
                  if count \<le> 0
                  then Inr \<lparr>it_text = before' @ after', it_offsets = [], it_invChar = inv'\<rparr>
                  else
                    (let prefixLen = int (length before')
                     in Inr \<lparr>it_text = before' @ js_repeat inv' count @ after',
                             it_offsets = map (\<lambda>i. prefixLen + int i) [0..<nat count],
                             it_invChar = inv'\<rparr>)))"

definition buildEntities :: "int list \<Rightarrow> UserId list \<Rightarrow> error + MessageEntityTextMention list" where
  "buildEntities offsets userIds =
     (if length offsets \<noteq> length userIds
      then Inl (LengthMismatch (int (length offsets)) (int (length userIds)))
      else Inr (map (\<lambda>i. \<lparr>type' = text_mention, offset = offsets ! i, length' = 1,
                           user = userIds ! i\<rparr>) [0..<length userIds]))"

text \<open>
  \<open>chunkUserIds\<close>: the loop \<open>for (i = 0; i < userIds.length; i += maxPerMessage)\<close>.
  It returns \<open>None\<close> when the loop does not end. The default 100 of the second
  parameter is left out: \<open>buildGhostPayloads\<close> always passes the cap.
\<close>

partial_function (option) chunkUserIds_loop ::
  "UserId list \<Rightarrow> jsnum \<Rightarrow> jsnum \<Rightarrow> UserId list list \<Rightarrow> UserId list list option" where
  "chunkUserIds_loop userIds maxPerMessage' i out =
     (if js_lt i (jint (int (length userIds)))
      then chunkUserIds_loop userIds maxPerMessage' (js_add i maxPerMessage')
             (out @ [js_slice userIds i (js_add i maxPerMessage')])
      else Some out)"

declare chunkUserIds_loop.simps [code]

definition chunkUserIds :: "UserId list \<Rightarrow> jsnum \<Rightarrow> UserId list list option" where
  "chunkUserIds userIds maxPerMessage' = chunkUserIds_loop userIds maxPerMessage' (jint 0) []"

definition clamp :: "int \<Rightarrow> int \<Rightarrow> int \<Rightarrow> int" where
  "clamp v lo hi = max lo (min hi v)"

text \<open>
  The two reverse scans of \<open>findAnchorIndex\<close>,
  \<open>for (i = src.length - 1; i >= 0; i--) if (p(src[i])) return ...\<close>:
  \<open>scan_back p src n\<close> runs the loop from \<open>i = n - 1\<close> and returns the index at which
  it returns, or \<open>None\<close> when it runs through.
\<close>

fun scan_back :: "(jsstring \<Rightarrow> bool) \<Rightarrow> jsstring \<Rightarrow> nat \<Rightarrow> nat option" where
  "scan_back p src 0 = None"
| "scan_back p src (Suc i) = (if p [src ! i] then Some i else scan_back p src i)"

text \<open>
  \<open>findAnchorIndex\<close>. Its first branch is taken for a \<open>replacePosition\<close> that is a
  finite number; NaN and the infinities go on to the scans like a missing one.
\<close>

definition findAnchorIndex ::
  "jsstring \<Rightarrow> jsstring list option \<Rightarrow> replace_position option \<Rightarrow> RegExp option
     \<Rightarrow> fallback_position \<Rightarrow> int" where
  "findAnchorIndex src replaceTargets' replacePosition' punctuationRegex' fallbackPosition' =
     (case replacePosition' of
        Some (PosNum (Num r)) \<Rightarrow> clamp (js_trunc r + 1) 0 (int (length src))
      | _ \<Rightarrow>
        (case (case replaceTargets' of
                 None \<Rightarrow> None
               | Some targets \<Rightarrow>
                   if targets \<noteq> [] then scan_back (\<lambda>c. c \<in> set targets) src (length src)
                   else None) of
           Some i \<Rightarrow> (if replacePosition' = Some PosStart then int i else int i + 1)
         | None \<Rightarrow>
           (case (case punctuationRegex' of
                    None \<Rightarrow> None
                  | Some r \<Rightarrow> scan_back r src (length src)) of
              Some i \<Rightarrow> (if replacePosition' = Some PosStart then int i else int i + 1)
            | None \<Rightarrow> (if fallbackPosition' = FbStart then 0 else int (length src)))))"

definition buildSmartBaseText ::
  "(jsstring \<Rightarrow> jsstring) \<Rightarrow> jsstring \<Rightarrow> jsstring \<Rightarrow> int \<Rightarrow> int \<Rightarrow> bool \<Rightarrow> bool
     \<Rightarrow> error + SmartBaseText" where
  "buildSmartBaseText nfc message' inv' count anchorAt separateLine trailingNewline' =
     (let src = nfc message';
          left = js_slice src (jint 0) (jint anchorAt);
          right = js_slice_from src (jint anchorAt);
          nlBefore = (if separateLine then [0x0A] else []);
          nlAfter = (if trailingNewline' then [0x0A] else [])
      in if count < 0 then Inl RangeError
         else Inr \<lparr>sb_text = left @ nlBefore @ js_repeat inv' count @ nlAfter @ right,
                   sb_baseLen = int (length left) + int (length nlBefore)
                                + int (length nlAfter) + int (length right),
                   sb_insertAt = int (length left) + int (length nlBefore),
                   sb_newlineOverhead = int (length nlBefore) + int (length nlAfter)\<rparr>)"

definition capCountByLength :: "int \<Rightarrow> jsnum \<Rightarrow> jsnum \<Rightarrow> jsnum" where
  "capCountByLength baseLen desiredCount maxTextLength' =
     (let allowed = js_max (jint 0) (js_sub maxTextLength' (jint baseLen))
      in js_max (jint 0) (js_min desiredCount allowed))"

text \<open>
  One iteration of the smart-mode loop of \<open>buildGhostPayloads\<close>, from the loop
  variable \<open>cursor\<close>: the payload it pushes and the \<open>take\<close> it adds to the cursor,
  or the error it throws.
\<close>

definition smart_iteration ::
  "(jsstring \<Rightarrow> jsstring) \<Rightarrow> ChatId \<Rightarrow> UserId list \<Rightarrow> GhostTemplate \<Rightarrow> jsstring \<Rightarrow> jsstring
     \<Rightarrow> fallback_position \<Rightarrow> RegExp \<Rightarrow> bool \<Rightarrow> bool \<Rightarrow> jsnum \<Rightarrow> jsnum \<Rightarrow> overflow_policy
     \<Rightarrow> jsnum \<Rightarrow> error + (GhostPayload \<times> jsnum)" where
  "smart_iteration nfc chatId userIds template msg inv' fallbackPosition' punctuationRegex'
       separateLine trailingNewline' maxPerMessage' maxTextLength' onOverflow' cursor =
     (let desired = js_min maxPerMessage' (js_sub (jint (int (length userIds))) cursor);
          anchorAt = findAnchorIndex msg (replaceTargets template)
                       (Some (coalesce (replacePosition template) PosEnd))
                       (Some punctuationRegex') fallbackPosition'
      in case buildSmartBaseText nfc msg inv' 0 anchorAt separateLine trailingNewline' of
           Inl e \<Rightarrow> Inl e
         | Inr base \<Rightarrow>
             (let allowed = capCountByLength (sb_baseLen base) desired maxTextLength'
              in if allowed = jint 0 then Inl (SmartBaseTooLong (int (length msg)))
                 else if onOverflow' = OvError \<and> js_lt allowed desired
                 then Inl (SmartTextOverflow desired allowed maxTextLength')
                 else
                   (let take' = allowed;
                        batch = js_slice userIds cursor (js_add cursor take')
                    in case buildSmartBaseText nfc msg inv' (int (length batch)) anchorAt
                              separateLine trailingNewline' of
                         Inl e \<Rightarrow> Inl e
                       | Inr built \<Rightarrow>
                           if js_gt (jint (int (length (sb_text built)))) maxTextLength'
                           then Inl (SmartTextExceeds maxTextLength')
                           else
                             (let offsets = map (\<lambda>i. sb_insertAt built + int i)
                                              [0..<length batch]
                              in case buildEntities offsets batch of
                                   Inl e \<Rightarrow> Inl e
                                 | Inr ents \<Rightarrow>
                                     Inr (\<lparr>chat_id = chatId, ptext = sb_text built,
                                            entities = ents\<rparr>, take')))))"

text \<open>
  The smart-mode loop \<open>while (cursor < userIds.length)\<close>; \<open>None\<close> when it does not
  end.
\<close>

partial_function (option) smart_loop ::
  "(jsstring \<Rightarrow> jsstring) \<Rightarrow> ChatId \<Rightarrow> UserId list \<Rightarrow> GhostTemplate \<Rightarrow> jsstring \<Rightarrow> jsstring
     \<Rightarrow> fallback_position \<Rightarrow> RegExp \<Rightarrow> bool \<Rightarrow> bool \<Rightarrow> jsnum \<Rightarrow> jsnum \<Rightarrow> overflow_policy
     \<Rightarrow> jsnum \<Rightarrow> GhostPayload list \<Rightarrow> (error + GhostPayload list) option" where
  "smart_loop nfc chatId userIds template msg inv' fallbackPosition' punctuationRegex'
       separateLine trailingNewline' maxPerMessage' maxTextLength' onOverflow' cursor payloads =
     (if js_lt cursor (jint (int (length userIds)))
      then
        (case smart_iteration nfc chatId userIds template msg inv' fallbackPosition'
                punctuationRegex' separateLine trailingNewline' maxPerMessage' maxTextLength'
                onOverflow' cursor of
           Inl e \<Rightarrow> Some (Inl e)
         | Inr (payload, take') \<Rightarrow>
             smart_loop nfc chatId userIds template msg inv' fallbackPosition' punctuationRegex'
               separateLine trailingNewline' maxPerMessage' maxTextLength' onOverflow'
               (js_add cursor take') (payloads @ [payload]))
      else Some (Inr payloads))"

declare smart_loop.simps [code]

text \<open>
  The body of the inner classic-mode loop for the recipients \<open>part\<close> it takes: the
  payload it pushes, or the error it throws.
\<close>

definition classic_iteration ::
  "(jsstring \<Rightarrow> jsstring) \<Rightarrow> ChatId \<Rightarrow> GhostTemplate \<Rightarrow> jsstring \<Rightarrow> jsnum \<Rightarrow> UserId list
     \<Rightarrow> error + GhostPayload" where
  "classic_iteration nfc chatId template inv' maxTextLength' part =
     (case buildInvisibleText nfc (int (length part)) (template\<lparr>char := Some inv'\<rparr>) of
        Inl e \<Rightarrow> Inl e
      | Inr built \<Rightarrow>
          if js_gt (jint (int (length (it_text built)))) maxTextLength'
          then Inl (ClassicTextExceeds maxTextLength')
          else
            (case buildEntities (it_offsets built) part of
               Inl e \<Rightarrow> Inl e
             | Inr ents \<Rightarrow>
                 Inr \<lparr>chat_id = chatId, ptext = it_text built, entities = ents\<rparr>))"

text \<open>
  The inner classic-mode loop \<open>while (remaining.length > 0)\<close> on one chunk; \<open>None\<close>
  when it does not end.
\<close>

partial_function (option) classic_while ::
  "(jsstring \<Rightarrow> jsstring) \<Rightarrow> ChatId \<Rightarrow> GhostTemplate \<Rightarrow> jsstring \<Rightarrow> jsnum \<Rightarrow> jsnum
     \<Rightarrow> overflow_policy \<Rightarrow> UserId list \<Rightarrow> GhostPayload list
     \<Rightarrow> (error + GhostPayload list) option" where
  "classic_while nfc chatId template inv' capacity maxTextLength' onOverflow' remaining payloads =
     (if length remaining > 0
      then
        (let take' = js_min (jint (int (length remaining))) capacity;
             part = js_slice remaining (jint 0) take'
         in case classic_iteration nfc chatId template inv' maxTextLength' part of
              Inl e \<Rightarrow> Some (Inl e)
            | Inr payload \<Rightarrow>
                (let payloads' = payloads @ [payload];
                     remaining' = js_slice_from remaining take'
                 in if onOverflow' = OvError \<and> length remaining' > 0
                    then Some (Inl (ClassicOverflowSplitting (int (length remaining'))))
                    else classic_while nfc chatId template inv' capacity maxTextLength'
                           onOverflow' remaining' payloads'))
      else Some (Inr payloads))"

declare classic_while.simps [code]

text \<open>The outer classic-mode loop \<open>for (const chunk of chunks)\<close>.\<close>

fun classic_for ::
  "(jsstring \<Rightarrow> jsstring) \<Rightarrow> ChatId \<Rightarrow> GhostTemplate \<Rightarrow> jsstring \<Rightarrow> jsnum \<Rightarrow> jsnum
     \<Rightarrow> overflow_policy \<Rightarrow> UserId list list \<Rightarrow> GhostPayload list
     \<Rightarrow> (error + GhostPayload list) option" where
  "classic_for nfc chatId template inv' capacity maxTextLength' onOverflow' [] payloads =
     Some (Inr payloads)"
| "classic_for nfc chatId template inv' capacity maxTextLength' onOverflow' (chunk # chunks)
       payloads =
     (if onOverflow' = OvError \<and> js_gt (jint (int (length chunk))) capacity
      then Some (Inl (ClassicOverflow (int (length chunk)) capacity maxTextLength'))
      else
        (case classic_while nfc chatId template inv' capacity maxTextLength' onOverflow'
                chunk payloads of
           None \<Rightarrow> None
         | Some (Inl e) \<Rightarrow> Some (Inl e)
         | Some (Inr payloads') \<Rightarrow>
             classic_for nfc chatId template inv' capacity maxTextLength' onOverflow' chunks
               payloads'))"

text \<open>
  \<open>smartMode\<close>: \<open>template.message\<close> is truthy (a string that is not empty) and
  neither \<open>before\<close> nor \<open>after\<close> is given.
\<close>

definition smartMode :: "GhostTemplate \<Rightarrow> bool" where
  "smartMode template =
     ((case message template of None \<Rightarrow> False | Some m \<Rightarrow> m \<noteq> [])
      \<and> before template = None \<and> after template = None)"

text \<open>
  \<open>buildGhostPayloads\<close>: \<open>Some (Inr payloads)\<close> when it returns, \<open>Some (Inl e)\<close> when it
  throws, \<open>None\<close> when it does not end.
\<close>

definition buildGhostPayloads ::
  "(jsstring \<Rightarrow> jsstring) \<Rightarrow> ChatId \<Rightarrow> UserId list \<Rightarrow> GhostTemplate \<Rightarrow> BuildOptions
     \<Rightarrow> (error + GhostPayload list) option" where
  "buildGhostPayloads nfc chatId userIds template opts =
     (let maxPerMessage' = js_max (jint 1) (coalesce (maxPerMessage opts) (jint 100));
          maxTextLength' = coalesce (maxTextLength opts) DEFAULT_MAX_TEXT;
          onOverflow' = coalesce (onOverflow opts) OvSplit
      in if length userIds = 0 then Some (Inr [])
         else if smartMode template
         then
           (let msg = the (message template);
                inv' = (case char template of
                          Some c \<Rightarrow> c
                        | None \<Rightarrow>
                            pickInvChar (coalesce (charCandidates template) DEFAULT_INV_CANDIDATES)
                              [Some msg]);
                fallbackPosition' =
                  (case fallbackPosition template of
                     Some f \<Rightarrow> f
                   | None \<Rightarrow>
                       if coalesce (preferEndIfNoPunctuation template) True then FbEnd
                       else FbStart);
                punctuationRegex' = coalesce (punctuationRegex template) DEFAULT_PUNCT_RE;
                separateLine = coalesce (separateLineForMentions template) False;
                trailingNewline' = coalesce (trailingNewline template) False
            in smart_loop nfc chatId userIds template msg inv' fallbackPosition'
                 punctuationRegex' separateLine trailingNewline' maxPerMessage' maxTextLength'
                 onOverflow' (jint 0) [])
         else
           (case chunkUserIds userIds maxPerMessage' of
              None \<Rightarrow> None
            | Some chunks \<Rightarrow>
                (let charList = coalesce (charCandidates template) DEFAULT_INV_CANDIDATES;
                     inv' = (case char template of
                               Some c \<Rightarrow> c
                             | None \<Rightarrow> pickInvChar charList [before template, after template]);
                     before' = nfc (coalesce (before template) []);
                     after' = nfc (coalesce (after template) [])
                 in case assertNoExistingInv before' inv' of
                      Inl e \<Rightarrow> Some (Inl e)
                    | Inr _ \<Rightarrow>
                        (case assertNoExistingInv after' inv' of
                           Inl e \<Rightarrow> Some (Inl e)
                         | Inr _ \<Rightarrow>
                             (let baseLen = int (length before') + int (length after');
                                  capacity = js_max (jint 0)
                                               (js_sub maxTextLength' (jint baseLen))
                              in if js_le capacity (jint 0)
                                 then Some (Inl (ClassicBaseTooLong baseLen maxTextLength'))
                                 else classic_for nfc chatId template inv' capacity
                                        maxTextLength' onOverflow' chunks [])))))"

text \<open>The template \<open>{}\<close> and the options \<open>{}\<close>: every field undefined.\<close>

definition empty_template :: GhostTemplate where
  "empty_template =
     \<lparr>before = None, after = None, char = None, message = None, charCandidates = None,
      replaceTargets = None, replacePosition = None, fallbackPosition = None,
      punctuationRegex = None, preferEndIfNoPunctuation = None,
      separateLineForMentions = None, trailingNewline = None\<rparr>"

definition default_options :: BuildOptions where
  "default_options = \<lparr>maxPerMessage = None, maxTextLength = None, onOverflow = None\<rparr>"

text \<open>
  The platform's normaliser on the two strings that the example for C6 normalises:
  NFC composes the letter \<open>e\<close> followed by the combining acute accent U+0301 into
  the single code unit U+00E9, and leaves the empty string as it is.
\<close>

definition nfc_e_acute :: "jsstring \<Rightarrow> jsstring" where
  "nfc_e_acute s = (if s = [0x65, 0x301] then [0xE9] else s)"

text \<open>
  What one pass of the inner classic-mode loop emits: \<open>part\<close> is the slice it takes
  (not empty, within the capacity and within \<open>bound\<close>) and \<open>p\<close> the payload pushed.
\<close>

definition classic_emits ::
  "(jsstring \<Rightarrow> jsstring) \<Rightarrow> ChatId \<Rightarrow> GhostTemplate \<Rightarrow> jsstring \<Rightarrow> int \<Rightarrow> jsnum \<Rightarrow> nat
     \<Rightarrow> UserId list \<Rightarrow> GhostPayload \<Rightarrow> bool" where
  "classic_emits nfc chatId template inv' capacity maxTextLength' bound part p =
     (part \<noteq> [] \<and> int (length part) \<le> capacity \<and> length part \<le> bound
      \<and> classic_iteration nfc chatId template inv' maxTextLength' part = Inr p)"

text \<open>The recipients of a payload, in the order of its entities.\<close>

definition recipients :: "GhostPayload \<Rightarrow> UserId list" where
  "recipients p = map user (entities p)"

text \<open>
  The marker \<open>inv\<close> that \<open>buildGhostPayloads\<close> and \<open>buildInvisibleText\<close> choose in
  classic mode, and the one \<open>buildGhostPayloads\<close> chooses in smart mode.
\<close>

definition classic_marker :: "GhostTemplate \<Rightarrow> jsstring" where
  "classic_marker template =
     (case char template of
        Some c \<Rightarrow> c
      | None \<Rightarrow>
          pickInvChar (coalesce (charCandidates template) DEFAULT_INV_CANDIDATES)
            [before template, after template])"

definition smart_marker :: "GhostTemplate \<Rightarrow> jsstring" where
  "smart_marker template =
     (case char template of
        Some c \<Rightarrow> c
      | None \<Rightarrow>
          pickInvChar (coalesce (charCandidates template) DEFAULT_INV_CANDIDATES)
            [Some (the (message template))])"

text \<open>An option that is absent or holds an integer.\<close>

definition integer_option :: "jsnum option \<Rightarrow> bool" where
  "integer_option x = (case x of None \<Rightarrow> True | Some v \<Rightarrow> (\<exists>k. v = jint k))"

section \<open>Numbers and slices\<close>

lemma jint_eq [simp]: "jint a = jint b \<longleftrightarrow> a = b"
  by (simp add: jint_def)

lemma jint_distinct [simp]: "jint a \<noteq> NaN" "jint a \<noteq> PInf" "jint a \<noteq> NInf"
  "NaN \<noteq> jint a" "PInf \<noteq> jint a" "NInf \<noteq> jint a"
  by (simp_all add: jint_def)

lemma js_add_jint [simp]: "js_add (jint a) (jint b) = jint (a + b)"
  by (simp add: jint_def)

lemma js_sub_jint [simp]: "js_sub (jint a) (jint b) = jint (a - b)"
  by (simp add: jint_def js_sub_def)

lemma js_lt_jint [simp]: "js_lt (jint a) (jint b) \<longleftrightarrow> a < b"
  by (simp add: jint_def)

lemma js_gt_jint [simp]: "js_gt (jint a) (jint b) \<longleftrightarrow> b < a"
  by (simp add: js_gt_def)

lemma js_le_jint [simp]: "js_le (jint a) (jint b) \<longleftrightarrow> a \<le> b"
  by (auto simp: js_le_def)

lemma js_min_jint [simp]: "js_min (jint a) (jint b) = jint (min a b)"
  by (simp add: js_min_def min_def)

lemma js_max_jint [simp]: "js_max (jint a) (jint b) = jint (max a b)"
  by (simp add: js_max_def max_def)

lemma js_trunc_of_int [simp]: "js_trunc (of_int k) = k"
  by (simp add: js_trunc_def)

lemma slice_index_jint:
  "slice_index len (jint k) = (if k < 0 then nat (max (int len + k) 0) else nat (min k (int len)))"
  by (simp add: slice_index_def jint_def Let_def)

lemma slice_index_nonneg: "0 \<le> k \<Longrightarrow> slice_index len (jint k) = min (nat k) len"
  by (simp add: slice_index_jint)

lemma slice_nonneg:
  "0 \<le> a \<Longrightarrow> 0 \<le> b \<Longrightarrow> js_slice xs (jint a) (jint b) = take (nat b - nat a) (drop (nat a) xs)"
  by (simp add: js_slice_def slice_index_nonneg Let_def min_def)

lemma slice_from_nonneg: "0 \<le> a \<Longrightarrow> js_slice_from xs (jint a) = drop (nat a) xs"
  by (simp add: js_slice_from_def slice_nonneg)

lemma slice_zero: "0 \<le> b \<Longrightarrow> js_slice xs (jint 0) (jint b) = take (nat b) xs"
  using slice_nonneg[of 0 b xs] by simp

lemma integer_option_simps [simp]:
  "integer_option None" "integer_option (Some (jint k))"
  by (auto simp: integer_option_def)

section \<open>Entities and single iterations\<close>

lemma buildEntities_Inr:
  assumes "buildEntities offs ids = Inr es"
  shows "length offs = length ids"
    and "length es = length ids"
    and "map user es = ids"
    and "map offset es = offs"
    and "\<And>e. e \<in> set es \<Longrightarrow> length' e = 1 \<and> type' e = text_mention"
    and "\<And>i. i < length ids \<Longrightarrow> offset (es ! i) = offs ! i \<and> user (es ! i) = ids ! i \<and> length' (es ! i) = 1"
proof -
  have len: "length offs = length ids"
    using assms by (auto simp: buildEntities_def split: if_splits)
  have es: "es = map (\<lambda>i. \<lparr>type' = text_mention, offset = offs ! i, length' = 1,
                           user = ids ! i\<rparr>) [0..<length ids]"
    using assms by (auto simp: buildEntities_def split: if_splits)
  show "length offs = length ids" by (rule len)
  show "length es = length ids" by (simp add: es)
  show "map user es = ids" by (simp add: es o_def map_nth)
  show "map offset es = offs" using len by (simp add: es o_def) (metis map_nth)
  show "\<And>e. e \<in> set es \<Longrightarrow> length' e = 1 \<and> type' e = text_mention" by (auto simp: es)
  show "\<And>i. i < length ids \<Longrightarrow> offset (es ! i) = offs ! i \<and> user (es ! i) = ids ! i \<and> length' (es ! i) = 1"
    by (simp add: es)
qed

lemma js_includes_Nil [simp]: "js_includes s []"
  by (induction s) auto

lemma buildInvisibleText_char:
  "buildInvisibleText nfc n (t\<lparr>char := Some i\<rparr>) =
     (if js_includes (nfc (coalesce (before t) [])) i
      then Inl (if i = [] then TypeError else InvCharInTemplate i)
      else if js_includes (nfc (coalesce (after t) [])) i
      then Inl (if i = [] then TypeError else InvCharInTemplate i)
      else if n \<le> 0
      then Inr \<lparr>it_text = nfc (coalesce (before t) []) @ nfc (coalesce (after t) []),
                it_offsets = [], it_invChar = i\<rparr>
      else Inr \<lparr>it_text = nfc (coalesce (before t) []) @ js_repeat i n
                            @ nfc (coalesce (after t) []),
                it_offsets = map (\<lambda>k. int (length (nfc (coalesce (before t) []))) + int k)
                               [0..<nat n],
                it_invChar = i\<rparr>)"
  by (simp add: buildInvisibleText_def assertNoExistingInv_def Let_def)

lemma classic_iteration_Inr:
  assumes "classic_iteration nfc chatId t i mtl part = Inr p"
  shows "\<not> js_includes (nfc (coalesce (before t) [])) i"
    and "\<not> js_includes (nfc (coalesce (after t) [])) i"
    and "ptext p = nfc (coalesce (before t) []) @ js_repeat i (int (length part))
                    @ nfc (coalesce (after t) [])"
    and "\<not> js_gt (jint (int (length (ptext p)))) mtl"
    and "chat_id p = chatId"
    and "map user (entities p) = part"
    and "map offset (entities p) =
           map (\<lambda>k. int (length (nfc (coalesce (before t) []))) + int k) [0..<length part]"
    and "\<And>e. e \<in> set (entities p) \<Longrightarrow> length' e = 1"
proof -
  let ?P = "nfc (coalesce (before t) [])" and ?S = "nfc (coalesce (after t) [])"
  obtain built where b: "buildInvisibleText nfc (int (length part)) (t\<lparr>char := Some i\<rparr>) = Inr built"
    using assms by (auto simp: classic_iteration_def split: sum.splits)
  have le: "\<not> js_gt (jint (int (length (it_text built)))) mtl"
    using assms b by (auto simp: classic_iteration_def split: sum.splits if_splits)
  obtain ents where e: "buildEntities (it_offsets built) part = Inr ents"
    and p: "p = \<lparr>chat_id = chatId, ptext = it_text built, entities = ents\<rparr>"
    using assms b by (auto simp: classic_iteration_def split: sum.splits if_splits)
  show nP: "\<not> js_includes ?P i" and nS: "\<not> js_includes ?S i"
    using b by (auto simp: buildInvisibleText_char split: if_splits)
  have tx: "it_text built = ?P @ js_repeat i (int (length part)) @ ?S"
    using b nP nS by (auto simp: buildInvisibleText_char js_repeat_def split: if_splits)
  have offs: "it_offsets built = map (\<lambda>k. int (length ?P) + int k) [0..<length part]"
    using b nP nS by (auto simp: buildInvisibleText_char split: if_splits)
  show "ptext p = ?P @ js_repeat i (int (length part)) @ ?S" by (simp add: p tx)
  show "\<not> js_gt (jint (int (length (ptext p)))) mtl" using le by (simp add: p)
  show "chat_id p = chatId" by (simp add: p)
  show "map user (entities p) = part" using buildEntities_Inr(3)[OF e] by (simp add: p)
  show "map offset (entities p) = map (\<lambda>k. int (length ?P) + int k) [0..<length part]"
    using buildEntities_Inr(4)[OF e] by (simp add: p offs)
  show "\<And>e. e \<in> set (entities p) \<Longrightarrow> length' e = 1"
    using buildEntities_Inr(5)[OF e] by (simp add: p)
qed

section \<open>The classic-mode loops, for any numbers\<close>

text \<open>
  What holds of the classic-mode loops whenever they return, whatever the numbers:
  the payloads pushed are those of single passes, and a chunk that is not empty
  leaves at least one.
\<close>

lemma classic_while_partial:
  "classic_while nfc chatId t i cap mtl ov remaining payloads = Some y \<Longrightarrow>
     \<forall>ps. y = Inr ps \<longrightarrow>
       (\<exists>new. ps = payloads @ new \<and> (remaining \<noteq> [] \<longrightarrow> new \<noteq> [])
          \<and> (\<forall>p\<in>set new. \<exists>part. classic_iteration nfc chatId t i mtl part = Inr p))"
  apply (erule classic_while.raw_induct[rotated, where P =
     "\<lambda>nfc chatId t i cap mtl ov remaining payloads y. \<forall>ps. y = Inr ps \<longrightarrow>
       (\<exists>new. ps = payloads @ new \<and> (remaining \<noteq> [] \<longrightarrow> new \<noteq> [])
          \<and> (\<forall>p\<in>set new. \<exists>part. classic_iteration nfc chatId t i mtl part = Inr p))"])
  subgoal premises prems for f nfc chatId t i cap mtl ov remaining payloads y
  proof (cases "remaining = []")
    case True
    then have "y = Inr payloads" using prems(2) by simp
    then show ?thesis using True by simp
  next
    case False
    let ?take = "js_min (jint (int (length remaining))) cap"
    let ?part = "js_slice remaining (jint 0) ?take"
    let ?rest = "js_slice_from remaining ?take"
    show ?thesis
    proof (cases "classic_iteration nfc chatId t i mtl ?part")
      case (Inl e)
      then have "y = Inl e" using prems(2) False by (simp add: Let_def)
      then show ?thesis by simp
    next
      case (Inr p)
      show ?thesis
      proof (cases "ov = OvError \<and> length ?rest > 0")
        case True
        then have "y = Inl (ClassicOverflowSplitting (int (length ?rest)))"
          using prems(2) False Inr by (auto simp: Let_def)
        then show ?thesis by simp
      next
        case no: False
        have "f nfc chatId t i cap mtl ov ?rest (payloads @ [p]) = Some y"
          using prems(2) False Inr no by (auto simp: Let_def)
        from prems(1)[OF this] show ?thesis using Inr by fastforce
      qed
    qed
  qed
  done

lemma classic_for_partial:
  "classic_for nfc chatId t i cap mtl ov chunks payloads = Some (Inr ps) \<Longrightarrow>
     \<exists>new. ps = payloads @ new \<and> ((\<exists>c\<in>set chunks. c \<noteq> []) \<longrightarrow> new \<noteq> [])
        \<and> (\<forall>p\<in>set new. \<exists>part. classic_iteration nfc chatId t i mtl part = Inr p)"
proof (induction chunks arbitrary: payloads)
  case Nil
  then show ?case by simp
next
  case (Cons chunk chunks)
  from Cons.prems obtain mid where
    w: "classic_while nfc chatId t i cap mtl ov chunk payloads = Some (Inr mid)"
    and f: "classic_for nfc chatId t i cap mtl ov chunks mid = Some (Inr ps)"
    by (auto split: if_splits option.splits sum.splits)
  obtain new1 where n1: "mid = payloads @ new1" "chunk \<noteq> [] \<longrightarrow> new1 \<noteq> []"
    "\<forall>p\<in>set new1. \<exists>part. classic_iteration nfc chatId t i mtl part = Inr p"
    using classic_while_partial[OF w] by blast
  obtain new2 where n2: "ps = mid @ new2" "(\<exists>c\<in>set chunks. c \<noteq> []) \<longrightarrow> new2 \<noteq> []"
    "\<forall>p\<in>set new2. \<exists>part. classic_iteration nfc chatId t i mtl part = Inr p"
    using Cons.IH[OF f] by blast
  have "ps = payloads @ (new1 @ new2)" using n1(1) n2(1) by simp
  moreover have "(\<exists>c\<in>set (chunk # chunks). c \<noteq> []) \<longrightarrow> new1 @ new2 \<noteq> []"
    using n1(2) n2(2) by auto
  moreover have "\<forall>p\<in>set (new1 @ new2). \<exists>part. classic_iteration nfc chatId t i mtl part = Inr p"
    using n1(3) n2(3) by auto
  ultimately show ?case by blast
qed

text \<open>
  The loop that never ends: when a pass takes no recipient (\<open>slice(0, take)\<close> is
  empty and \<open>slice(take)\<close> is all of \<open>remaining\<close>), pushes its payload and the policy
  is \<open>"split"\<close>, the next pass is the same.
\<close>

lemma classic_while_stuck:
  "classic_while nfc chatId t i cap mtl ov remaining payloads = Some y \<Longrightarrow>
     \<not> (remaining \<noteq> [] \<and> ov = OvSplit
         \<and> js_slice remaining (jint 0) (js_min (jint (int (length remaining))) cap) = []
         \<and> js_slice_from remaining (js_min (jint (int (length remaining))) cap) = remaining
         \<and> (\<exists>p. classic_iteration nfc chatId t i mtl [] = Inr p))"
  apply (erule classic_while.raw_induct[rotated, where P =
     "\<lambda>nfc chatId t i cap mtl ov remaining payloads y.
        \<not> (remaining \<noteq> [] \<and> ov = OvSplit
         \<and> js_slice remaining (jint 0) (js_min (jint (int (length remaining))) cap) = []
         \<and> js_slice_from remaining (js_min (jint (int (length remaining))) cap) = remaining
         \<and> (\<exists>p. classic_iteration nfc chatId t i mtl [] = Inr p))"])
  subgoal premises prems for f nfc chatId t i cap mtl ov remaining payloads y
  proof
    assume a: "remaining \<noteq> [] \<and> ov = OvSplit
         \<and> js_slice remaining (jint 0) (js_min (jint (int (length remaining))) cap) = []
         \<and> js_slice_from remaining (js_min (jint (int (length remaining))) cap) = remaining
         \<and> (\<exists>p. classic_iteration nfc chatId t i mtl [] = Inr p)"
    then obtain p where p: "classic_iteration nfc chatId t i mtl [] = Inr p" by blast
    have "f nfc chatId t i cap mtl ov remaining (payloads @ [p]) = Some y"
      using prems(2) a p by (simp add: Let_def)
    from prems(1)[OF this] a show False by blast
  qed
  done

section \<open>The mode of a template\<close>

lemma classic_iteration_message:
  "classic_iteration nfc chatId (t\<lparr>message := m\<rparr>) i mtl part
     = classic_iteration nfc chatId t i mtl part"
  by (simp add: classic_iteration_def buildInvisibleText_def)

lemma classic_marker_message: "classic_marker (t\<lparr>message := m\<rparr>) = classic_marker t"
  by (simp add: classic_marker_def split: option.splits)

lemma classic_while_transfer:
  assumes same: "\<And>part. classic_iteration nfc0 chatId0 t1 i0 mtl0 part
                         = classic_iteration nfc0 chatId0 t2 i0 mtl0 part"
  shows "classic_while nfc0 chatId0 t1 i0 cap mtl0 ov remaining payloads = Some y \<Longrightarrow>
         classic_while nfc0 chatId0 t2 i0 cap mtl0 ov remaining payloads = Some y"
proof -
  have "classic_while nfc chatId t i cap mtl ov remaining payloads = Some y \<Longrightarrow>
          nfc = nfc0 \<and> chatId = chatId0 \<and> t = t1 \<and> i = i0 \<and> mtl = mtl0 \<longrightarrow>
          classic_while nfc0 chatId0 t2 i0 cap mtl0 ov remaining payloads = Some y"
    for nfc chatId t i mtl
    apply (erule classic_while.raw_induct[rotated, where P =
       "\<lambda>nfc chatId t i cap mtl ov remaining payloads y.
          nfc = nfc0 \<and> chatId = chatId0 \<and> t = t1 \<and> i = i0 \<and> mtl = mtl0 \<longrightarrow>
          classic_while nfc0 chatId0 t2 i0 cap mtl0 ov remaining payloads = Some y"])
    subgoal premises prems for f nfc chatId t i cap mtl ov remaining payloads y
    proof
      assume eq: "nfc = nfc0 \<and> chatId = chatId0 \<and> t = t1 \<and> i = i0 \<and> mtl = mtl0"
      let ?take = "js_min (jint (int (length remaining))) cap"
      let ?part = "js_slice remaining (jint 0) ?take"
      let ?rest = "js_slice_from remaining ?take"
      show "classic_while nfc0 chatId0 t2 i0 cap mtl0 ov remaining payloads = Some y"
      proof (cases "remaining = []")
        case True
        then have "y = Inr payloads" using prems(2) by simp
        then show ?thesis using True by (subst classic_while.simps) simp
      next
        case False
        show ?thesis
        proof (cases "classic_iteration nfc0 chatId0 t2 i0 mtl0 ?part")
          case (Inl e)
          then have "y = Inl e" using prems(2) False eq same by (simp add: Let_def)
          then show ?thesis using False Inl by (subst classic_while.simps) (simp add: Let_def)
        next
          case (Inr p)
          show ?thesis
          proof (cases "ov = OvError \<and> length ?rest > 0")
            case True
            then have "y = Inl (ClassicOverflowSplitting (int (length ?rest)))"
              using prems(2) False Inr eq same by (auto simp: Let_def)
            then show ?thesis using False Inr True
              by (subst classic_while.simps) (auto simp: Let_def)
          next
            case no: False
            have "f nfc chatId t i cap mtl ov ?rest (payloads @ [p]) = Some y"
              using prems(2) False Inr no eq same by (auto simp: Let_def)
            from prems(1)[OF this] eq
            have "classic_while nfc0 chatId0 t2 i0 cap mtl0 ov ?rest (payloads @ [p]) = Some y"
              by blast
            then show ?thesis using False Inr no
              by (subst classic_while.simps) (auto simp: Let_def)
          qed
        qed
      qed
    qed
    done
  then show "classic_while nfc0 chatId0 t1 i0 cap mtl0 ov remaining payloads = Some y \<Longrightarrow>
         classic_while nfc0 chatId0 t2 i0 cap mtl0 ov remaining payloads = Some y"
    by blast
qed

lemma classic_while_cong:
  assumes same: "\<And>part. classic_iteration nfc chatId t1 i mtl part
                         = classic_iteration nfc chatId t2 i mtl part"
  shows "classic_while nfc chatId t1 i cap mtl ov remaining payloads
           = classic_while nfc chatId t2 i cap mtl ov remaining payloads"
proof (cases "classic_while nfc chatId t1 i cap mtl ov remaining payloads")
  case (Some y)
  then show ?thesis using classic_while_transfer[OF same] by simp
next
  case None
  show ?thesis
  proof (cases "classic_while nfc chatId t2 i cap mtl ov remaining payloads")
    case (Some y)
    then have "classic_while nfc chatId t1 i cap mtl ov remaining payloads = Some y"
      using classic_while_transfer[OF same[symmetric]] by blast
    then show ?thesis using None by simp
  next
    case n2: None
    then show ?thesis using None by simp
  qed
qed

lemma classic_for_cong:
  assumes same: "\<And>part. classic_iteration nfc chatId t1 i mtl part
                         = classic_iteration nfc chatId t2 i mtl part"
  shows "classic_for nfc chatId t1 i cap mtl ov chunks payloads
           = classic_for nfc chatId t2 i cap mtl ov chunks payloads"
proof (induction chunks arbitrary: payloads)
  case Nil
  show ?case by simp
next
  case (Cons chunk chunks)
  show ?case
    by (simp add: classic_while_cong[OF same] Cons.IH split: option.splits sum.splits)
qed

section \<open>The structure of a run of buildGhostPayloads\<close>

lemma buildGhostPayloads_empty: "buildGhostPayloads nfc chatId [] t opts = Some (Inr [])"
  by (simp add: buildGhostPayloads_def Let_def)

lemma buildGhostPayloads_smart_eq:
  assumes "userIds \<noteq> []" and "smartMode t"
  shows "buildGhostPayloads nfc chatId userIds t opts =
           smart_loop nfc chatId userIds t (the (message t)) (smart_marker t)
             (case fallbackPosition t of
                Some f \<Rightarrow> f
              | None \<Rightarrow> if coalesce (preferEndIfNoPunctuation t) True then FbEnd else FbStart)
             (coalesce (punctuationRegex t) DEFAULT_PUNCT_RE)
             (coalesce (separateLineForMentions t) False)
             (coalesce (trailingNewline t) False)
             (js_max (jint 1) (coalesce (maxPerMessage opts) (jint 100)))
             (coalesce (maxTextLength opts) DEFAULT_MAX_TEXT)
             (coalesce (onOverflow opts) OvSplit) (jint 0) []"
  using assms by (simp add: buildGhostPayloads_def Let_def smart_marker_def)

lemma buildGhostPayloads_classic_eq:
  assumes "userIds \<noteq> []" and "\<not> smartMode t"
  shows "buildGhostPayloads nfc chatId userIds t opts =
          (case chunkUserIds userIds (js_max (jint 1) (coalesce (maxPerMessage opts) (jint 100))) of
             None \<Rightarrow> None
           | Some chunks \<Rightarrow>
              if js_includes (nfc (coalesce (before t) [])) (classic_marker t)
                 \<or> js_includes (nfc (coalesce (after t) [])) (classic_marker t)
              then Some (Inl (if classic_marker t = [] then TypeError
                              else InvCharInTemplate (classic_marker t)))
              else if js_le (js_max (jint 0)
                        (js_sub (coalesce (maxTextLength opts) DEFAULT_MAX_TEXT)
                           (jint (int (length (nfc (coalesce (before t) [])))
                                  + int (length (nfc (coalesce (after t) [])))))))
                      (jint 0)
              then Some (Inl (ClassicBaseTooLong
                                (int (length (nfc (coalesce (before t) [])))
                                 + int (length (nfc (coalesce (after t) []))))
                                (coalesce (maxTextLength opts) DEFAULT_MAX_TEXT)))
              else classic_for nfc chatId t (classic_marker t)
                     (js_max (jint 0)
                        (js_sub (coalesce (maxTextLength opts) DEFAULT_MAX_TEXT)
                           (jint (int (length (nfc (coalesce (before t) [])))
                                  + int (length (nfc (coalesce (after t) [])))))))
                     (coalesce (maxTextLength opts) DEFAULT_MAX_TEXT)
                     (coalesce (onOverflow opts) OvSplit) chunks [])"
  using assms
  by (simp add: buildGhostPayloads_def Let_def classic_marker_def assertNoExistingInv_def
        split: option.splits)

section \<open>The smart-mode loop, for any numbers\<close>

lemma buildSmartBaseText_Inr:
  "0 \<le> n \<Longrightarrow> \<exists>b. buildSmartBaseText nfc msg i n a sep trl = Inr b
      \<and> sb_text b = (js_slice (nfc msg) (jint 0) (jint a) @ (if sep then [0x0A] else []))
                      @ js_repeat i n
                      @ ((if trl then [0x0A] else []) @ js_slice_from (nfc msg) (jint a))
      \<and> sb_insertAt b
          = int (length (js_slice (nfc msg) (jint 0) (jint a) @ (if sep then [0x0A] else [])))"
  by (simp add: buildSmartBaseText_def Let_def)

text \<open>What a pass of the smart-mode loop that does not throw has done.\<close>

lemma smart_iteration_Inr:
  assumes it: "smart_iteration nfc chatId userIds t msg i fb re sep trl mpm mtl ov cursor
                 = Inr (p, tk)"
  shows "\<exists>base. tk = capCountByLength base
                       (js_min mpm (js_sub (jint (int (length userIds))) cursor)) mtl"
    and "tk \<noteq> jint 0"
    and "ov = OvError \<Longrightarrow> \<not> js_lt tk (js_min mpm (js_sub (jint (int (length userIds))) cursor))"
    and "recipients p = js_slice userIds cursor (js_add cursor tk)"
    and "\<not> js_gt (jint (int (length (ptext p)))) mtl"
    and "chat_id p = chatId"
    and "\<And>e. e \<in> set (entities p) \<Longrightarrow> length' e = 1"
    and "\<exists>left right. ptext p = left @ js_repeat i (int (length (entities p))) @ right
           \<and> map offset (entities p)
               = map (\<lambda>k. int (length left) + int k) [0..<length (entities p)]"
proof -
  define desired where "desired = js_min mpm (js_sub (jint (int (length userIds))) cursor)"
  define anchorAt where "anchorAt = findAnchorIndex msg (replaceTargets t)
                       (Some (coalesce (replacePosition t) PosEnd)) (Some re) fb"
  obtain base where base: "buildSmartBaseText nfc msg i 0 anchorAt sep trl = Inr base"
    using buildSmartBaseText_Inr[of 0 nfc msg i anchorAt sep trl] by auto
  define allowed where "allowed = capCountByLength (sb_baseLen base) desired mtl"
  define batch where "batch = js_slice userIds cursor (js_add cursor allowed)"
  let ?left = "js_slice (nfc msg) (jint 0) (jint anchorAt) @ (if sep then [0x0A] else [])"
  let ?right = "(if trl then [0x0A] else []) @ js_slice_from (nfc msg) (jint anchorAt)"
  obtain built where built: "buildSmartBaseText nfc msg i (int (length batch)) anchorAt sep trl
                       = Inr built"
    and tx: "sb_text built = ?left @ js_repeat i (int (length batch)) @ ?right"
    and at: "sb_insertAt built = int (length ?left)"
    using buildSmartBaseText_Inr[of "int (length batch)" nfc msg i anchorAt sep trl] by auto
  have unfolded: "smart_iteration nfc chatId userIds t msg i fb re sep trl mpm mtl ov cursor =
     (if allowed = jint 0 then Inl (SmartBaseTooLong (int (length msg)))
      else if ov = OvError \<and> js_lt allowed desired
      then Inl (SmartTextOverflow desired allowed mtl)
      else if js_gt (jint (int (length (sb_text built)))) mtl then Inl (SmartTextExceeds mtl)
      else (case buildEntities (map (\<lambda>k. sb_insertAt built + int k) [0..<length batch]) batch of
              Inl e \<Rightarrow> Inl e
            | Inr ents \<Rightarrow> Inr (\<lparr>chat_id = chatId, ptext = sb_text built, entities = ents\<rparr>,
                               allowed)))"
    unfolding smart_iteration_def
    by (simp add: Let_def desired_def[symmetric] anchorAt_def[symmetric] base
          allowed_def[symmetric] batch_def[symmetric] built)
  have nz: "allowed \<noteq> jint 0" using it unfolded by (auto split: if_splits)
  have ovf: "\<not> (ov = OvError \<and> js_lt allowed desired)"
    using it unfolded nz by (auto split: if_splits)
  have le: "\<not> js_gt (jint (int (length (sb_text built)))) mtl"
    using it unfolded nz ovf by (auto split: if_splits)
  obtain ents where ents: "buildEntities (map (\<lambda>k. sb_insertAt built + int k) [0..<length batch])
                             batch = Inr ents"
    and p: "p = \<lparr>chat_id = chatId, ptext = sb_text built, entities = ents\<rparr>" and tk: "tk = allowed"
    using it unfolded nz ovf le by (auto split: if_splits sum.splits)
  have len: "length (entities p) = length batch"
    using buildEntities_Inr(2)[OF ents] by (simp add: p)
  show "\<exists>base. tk = capCountByLength base
                       (js_min mpm (js_sub (jint (int (length userIds))) cursor)) mtl"
    using tk allowed_def desired_def by blast
  show "tk \<noteq> jint 0" using nz tk by simp
  show "ov = OvError \<Longrightarrow> \<not> js_lt tk (js_min mpm (js_sub (jint (int (length userIds))) cursor))"
    using ovf tk desired_def by simp
  show "recipients p = js_slice userIds cursor (js_add cursor tk)"
    using buildEntities_Inr(3)[OF ents] by (simp add: recipients_def p tk batch_def)
  show "\<not> js_gt (jint (int (length (ptext p)))) mtl" using le by (simp add: p)
  show "chat_id p = chatId" by (simp add: p)
  show "\<And>e. e \<in> set (entities p) \<Longrightarrow> length' e = 1"
    using buildEntities_Inr(5)[OF ents] by (simp add: p)
  have "ptext p = ?left @ js_repeat i (int (length (entities p))) @ ?right"
    unfolding len by (simp add: p tx)
  moreover have "map offset (entities p)
               = map (\<lambda>k. int (length ?left) + int k) [0..<length (entities p)]"
    unfolding len using buildEntities_Inr(4)[OF ents] by (simp add: p at)
  ultimately show "\<exists>left right. ptext p = left @ js_repeat i (int (length (entities p))) @ right
           \<and> map offset (entities p)
               = map (\<lambda>k. int (length left) + int k) [0..<length (entities p)]"
    by blast
qed

lemma smart_loop_partial:
  "smart_loop nfc chatId userIds t msg i fb re sep trl mpm mtl ov cursor payloads = Some y \<Longrightarrow>
     \<forall>ps. y = Inr ps \<longrightarrow>
       (\<exists>new. ps = payloads @ new
          \<and> (js_lt cursor (jint (int (length userIds))) \<longrightarrow> new \<noteq> [])
          \<and> (\<forall>p\<in>set new. \<exists>c tk. smart_iteration nfc chatId userIds t msg i fb re sep trl
                                     mpm mtl ov c = Inr (p, tk)))"
  apply (erule smart_loop.raw_induct[rotated, where P =
     "\<lambda>nfc chatId userIds t msg i fb re sep trl mpm mtl ov cursor payloads y.
        \<forall>ps. y = Inr ps \<longrightarrow>
          (\<exists>new. ps = payloads @ new
             \<and> (js_lt cursor (jint (int (length userIds))) \<longrightarrow> new \<noteq> [])
             \<and> (\<forall>p\<in>set new. \<exists>c tk. smart_iteration nfc chatId userIds t msg i fb re sep trl
                                        mpm mtl ov c = Inr (p, tk)))"])
  subgoal premises prems for f nfc chatId userIds t msg i fb re sep trl mpm mtl ov cursor payloads y
  proof (cases "js_lt cursor (jint (int (length userIds)))")
    case False
    then have "y = Inr payloads" using prems(2) by simp
    then show ?thesis using False by simp
  next
    case True
    show ?thesis
    proof (cases "smart_iteration nfc chatId userIds t msg i fb re sep trl mpm mtl ov cursor")
      case (Inl e)
      then have "y = Inl e" using prems(2) True by simp
      then show ?thesis by simp
    next
      case (Inr res)
      obtain p tk where res: "res = (p, tk)" by (cases res)
      have "f nfc chatId userIds t msg i fb re sep trl mpm mtl ov (js_add cursor tk)
              (payloads @ [p]) = Some y"
        using prems(2) True Inr res by simp
      from prems(1)[OF this] show ?thesis using Inr res by fastforce
    qed
  qed
  done

section \<open>The payloads of a run, for any options\<close>

lemma buildGhostPayloads_payload:
  assumes ok: "buildGhostPayloads nfc chatId userIds t opts = Some (Inr ps)"
    and p: "p \<in> set ps"
  shows "smartMode t \<Longrightarrow>
           \<exists>fb c tk. smart_iteration nfc chatId userIds t (the (message t)) (smart_marker t) fb
                        (coalesce (punctuationRegex t) DEFAULT_PUNCT_RE)
                        (coalesce (separateLineForMentions t) False)
                        (coalesce (trailingNewline t) False)
                        (js_max (jint 1) (coalesce (maxPerMessage opts) (jint 100)))
                        (coalesce (maxTextLength opts) DEFAULT_MAX_TEXT)
                        (coalesce (onOverflow opts) OvSplit) c = Inr (p, tk)"
    and "\<not> smartMode t \<Longrightarrow>
           \<exists>part. classic_iteration nfc chatId t (classic_marker t)
                     (coalesce (maxTextLength opts) DEFAULT_MAX_TEXT) part = Inr p"
proof -
  have ne: "userIds \<noteq> []" using ok p by (auto simp: buildGhostPayloads_empty)
  {
    assume sm: "smartMode t"
    note l = smart_loop_partial[OF ok[unfolded buildGhostPayloads_smart_eq[OF ne sm]]]
    from l have "\<forall>p\<in>set ps. \<exists>c tk. smart_iteration nfc chatId userIds t (the (message t))
                 (smart_marker t)
                 (case fallbackPosition t of
                    Some f \<Rightarrow> f
                  | None \<Rightarrow> if coalesce (preferEndIfNoPunctuation t) True then FbEnd else FbStart)
                 (coalesce (punctuationRegex t) DEFAULT_PUNCT_RE)
                 (coalesce (separateLineForMentions t) False)
                 (coalesce (trailingNewline t) False)
                 (js_max (jint 1) (coalesce (maxPerMessage opts) (jint 100)))
                 (coalesce (maxTextLength opts) DEFAULT_MAX_TEXT)
                 (coalesce (onOverflow opts) OvSplit) c = Inr (p, tk)"
      by simp
    then show "\<exists>fb c tk. smart_iteration nfc chatId userIds t (the (message t)) (smart_marker t) fb
                        (coalesce (punctuationRegex t) DEFAULT_PUNCT_RE)
                        (coalesce (separateLineForMentions t) False)
                        (coalesce (trailingNewline t) False)
                        (js_max (jint 1) (coalesce (maxPerMessage opts) (jint 100)))
                        (coalesce (maxTextLength opts) DEFAULT_MAX_TEXT)
                        (coalesce (onOverflow opts) OvSplit) c = Inr (p, tk)"
      using p by blast
  }
  {
    assume cl: "\<not> smartMode t"
    from ok[unfolded buildGhostPayloads_classic_eq[OF ne cl]]
    obtain chunks cap where
      "classic_for nfc chatId t (classic_marker t) cap
         (coalesce (maxTextLength opts) DEFAULT_MAX_TEXT) (coalesce (onOverflow opts) OvSplit)
         chunks [] = Some (Inr ps)"
      by (auto split: option.splits if_splits)
    from classic_for_partial[OF this] p
    show "\<exists>part. classic_iteration nfc chatId t (classic_marker t)
                     (coalesce (maxTextLength opts) DEFAULT_MAX_TEXT) part = Inr p"
      by auto
  }
qed

lemma js_repeat_nat: "js_repeat i (int n) = concat (replicate n i)"
  by (simp add: js_repeat_def)

lemma length_js_repeat: "i \<noteq> [] \<Longrightarrow> n \<le> length (js_repeat i (int n))"
proof (induction n)
  case 0
  show ?case by simp
next
  case (Suc n)
  have "js_repeat i (int (Suc n)) = i @ js_repeat i (int n)"
    unfolding js_repeat_def nat_int by simp
  moreover have "1 \<le> length i" using Suc.prems by (cases i) simp_all
  ultimately show ?case using Suc by simp
qed

lemma classic_payload_shape:
  assumes cl: "\<not> smartMode t"
    and ok: "buildGhostPayloads nfc chatId userIds t opts = Some (Inr ps)"
    and p: "p \<in> set ps"
  shows "ptext p = nfc (coalesce (before t) [])
                     @ concat (replicate (length (entities p)) (classic_marker t))
                     @ nfc (coalesce (after t) [])"
    and "map offset (entities p) =
           map (\<lambda>k. int (length (nfc (coalesce (before t) []))) + int k)
             [0..<length (entities p)]"
    and "\<And>e. e \<in> set (entities p) \<Longrightarrow> length' e = 1"
    and "classic_marker t \<noteq> []"
proof -
  obtain part where it: "classic_iteration nfc chatId t (classic_marker t)
                   (coalesce (maxTextLength opts) DEFAULT_MAX_TEXT) part = Inr p"
    using buildGhostPayloads_payload(2)[OF ok p cl] by blast
  have len: "length (entities p) = length part"
    using classic_iteration_Inr(6)[OF it] by (metis length_map)
  show "ptext p = nfc (coalesce (before t) [])
                     @ concat (replicate (length (entities p)) (classic_marker t))
                     @ nfc (coalesce (after t) [])"
    using classic_iteration_Inr(3)[OF it] by (simp add: len js_repeat_nat)
  show "map offset (entities p) =
           map (\<lambda>k. int (length (nfc (coalesce (before t) []))) + int k)
             [0..<length (entities p)]"
    using classic_iteration_Inr(7)[OF it] by (simp add: len)
  show "\<And>e. e \<in> set (entities p) \<Longrightarrow> length' e = 1"
    using classic_iteration_Inr(8)[OF it] by simp
  show "classic_marker t \<noteq> []" using classic_iteration_Inr(1)[OF it] by auto
qed

text \<open>
  With a marker that is not the empty string, every mention of a returned payload
  lies inside its text, whatever the options. Classic mode never returns with an
  empty marker, since \<open>assertNoExistingInv\<close> throws on it; smart mode has no such
  check.
\<close>

lemma offsets_inside:
  assumes tx: "ptext p = left @ js_repeat i (int (length (entities p))) @ right"
    and offs: "map offset (entities p)
               = map (\<lambda>k. int (length left) + int k) [0..<length (entities p)]"
    and one: "\<And>e. e \<in> set (entities p) \<Longrightarrow> length' e = 1"
    and ne: "i \<noteq> []"
    and k: "k < length (entities p)"
  shows "0 \<le> offset (entities p ! k)
         \<and> offset (entities p ! k) + length' (entities p ! k) \<le> int (length (ptext p))"
proof -
  have "offset (entities p ! k) = map offset (entities p) ! k" using k by simp
  also have "\<dots> = int (length left) + int k" using k unfolding offs by simp
  finally have o: "offset (entities p ! k) = int (length left) + int k" .
  have l: "length' (entities p ! k) = 1" using one k by simp
  have "length (entities p) \<le> length (js_repeat i (int (length (entities p))))"
    using length_js_repeat[OF ne] .
  then have "length left + Suc k \<le> length (ptext p)" using k by (simp add: tx)
  then show ?thesis using o l by simp
qed

lemma mention_inside_text:
  assumes ok: "buildGhostPayloads nfc chatId userIds t opts = Some (Inr ps)"
    and p: "p \<in> set ps"
    and ne: "smartMode t \<Longrightarrow> smart_marker t \<noteq> []"
    and k: "k < length (entities p)"
  shows "0 \<le> offset (entities p ! k)
         \<and> offset (entities p ! k) + length' (entities p ! k) \<le> int (length (ptext p))"
proof (cases "smartMode t")
  case True
  obtain fb c tk where it:
    "smart_iteration nfc chatId userIds t (the (message t)) (smart_marker t) fb
       (coalesce (punctuationRegex t) DEFAULT_PUNCT_RE)
       (coalesce (separateLineForMentions t) False) (coalesce (trailingNewline t) False)
       (js_max (jint 1) (coalesce (maxPerMessage opts) (jint 100)))
       (coalesce (maxTextLength opts) DEFAULT_MAX_TEXT)
       (coalesce (onOverflow opts) OvSplit) c = Inr (p, tk)"
    using buildGhostPayloads_payload(1)[OF ok p True] by blast
  obtain left right where sh:
    "ptext p = left @ js_repeat (smart_marker t) (int (length (entities p))) @ right"
    "map offset (entities p) = map (\<lambda>k. int (length left) + int k) [0..<length (entities p)]"
    using smart_iteration_Inr(8)[OF it] by blast
  show ?thesis
    using offsets_inside[OF sh smart_iteration_Inr(7)[OF it] ne[OF True] k] .
next
  case False
  note s = classic_payload_shape[OF False ok p]
  have tx: "ptext p = nfc (coalesce (before t) [])
              @ js_repeat (classic_marker t) (int (length (entities p)))
              @ nfc (coalesce (after t) [])"
    using s(1) by (simp add: js_repeat_nat)
  show ?thesis using offsets_inside[OF tx s(2) s(3) s(4) k] .
qed

section \<open>The loops on integers\<close>

text \<open>
  When the cap, the capacity and the limit are integers, the loops end and cut
  \<open>userIds\<close> into consecutive slices that are not empty.
\<close>

lemma chunkUserIds_loop_Some:
  assumes "1 \<le> m" and "0 \<le> i"
  shows "\<exists>cs. chunkUserIds_loop u (jint m) (jint i) out = Some (out @ cs)
           \<and> concat cs = drop (nat i) u
           \<and> (\<forall>c\<in>set cs. c \<noteq> [] \<and> int (length c) \<le> m)"
  using assms(2)
proof (induction "length u - nat i" arbitrary: i out rule: less_induct)
  case less
  show ?case
  proof (cases "i < int (length u)")
    case False
    then show ?thesis
      using less.prems by (subst chunkUserIds_loop.simps) simp
  next
    case True
    let ?sl = "js_slice u (jint i) (jint (i + m))"
    have sl: "?sl = take (nat m) (drop (nat i) u)"
      using less.prems assms(1) by (simp add: slice_nonneg nat_add_distrib)
    have "length u - nat (i + m) < length u - nat i"
      using True less.prems assms(1) by linarith
    moreover have "0 \<le> i + m" using less.prems assms(1) by simp
    ultimately obtain cs where cs:
      "chunkUserIds_loop u (jint m) (jint (i + m)) (out @ [?sl]) = Some ((out @ [?sl]) @ cs)"
      "concat cs = drop (nat (i + m)) u"
      "\<forall>c\<in>set cs. c \<noteq> [] \<and> int (length c) \<le> m"
      using less.hyps[of "i + m" "out @ [?sl]"] by blast
    have dr: "drop (nat (i + m)) u = drop (nat m) (drop (nat i) u)"
      using less.prems assms(1) by (simp add: nat_add_distrib add.commute)
    have ne: "?sl \<noteq> []" using True less.prems assms(1) by (simp add: sl)
    have le: "int (length ?sl) \<le> m" using assms(1) by (simp add: sl)
    have "chunkUserIds_loop u (jint m) (jint i) out = Some (out @ (?sl # cs))"
      using True cs(1) by (subst chunkUserIds_loop.simps) simp
    moreover have "concat (?sl # cs) = drop (nat i) u"
      by (simp only: sl dr concat.simps cs(2) append_take_drop_id)
    moreover have "\<forall>c\<in>set (?sl # cs). c \<noteq> [] \<and> int (length c) \<le> m"
      using cs(3) ne le by simp
    ultimately show ?thesis by blast
  qed
qed

lemma chunkUserIds_Some:
  assumes "1 \<le> m"
  shows "\<exists>cs. chunkUserIds u (jint m) = Some cs \<and> concat cs = u
           \<and> (\<forall>c\<in>set cs. c \<noteq> [] \<and> int (length c) \<le> m)"
  using chunkUserIds_loop_Some[OF assms, of 0 u "[]"] by (simp add: chunkUserIds_def)

text \<open>
  On its own, \<open>chunkUserIds\<close> with the cap 0 never leaves its loop on a list that
  is not empty: \<open>buildGhostPayloads\<close> stays clear of this only because it raises
  the cap to 1 first.
\<close>

lemma chunkUserIds_loop_zero:
  "chunkUserIds_loop userIds m i out = Some y \<Longrightarrow>
     \<not> (m = jint 0 \<and> (\<exists>k. i = jint k \<and> k < int (length userIds)))"
proof (erule chunkUserIds_loop.raw_induct[rotated, where P =
         "\<lambda>u m i out y. \<not> (m = jint 0 \<and> (\<exists>k. i = jint k \<and> k < int (length u)))"])
  fix f :: "int list \<Rightarrow> jsnum \<Rightarrow> jsnum \<Rightarrow> int list list \<Rightarrow> int list list option"
    and u m i out y
  assume ih: "\<And>u m i out y. f u m i out = Some y
                \<Longrightarrow> \<not> (m = jint 0 \<and> (\<exists>k. i = jint k \<and> k < int (length u)))"
    and body: "(if js_lt i (jint (int (length u)))
                then f u m (js_add i m) (out @ [js_slice u i (js_add i m)])
                else Some out) = Some y"
  show "\<not> (m = jint 0 \<and> (\<exists>k. i = jint k \<and> k < int (length u)))"
  proof
    assume a: "m = jint 0 \<and> (\<exists>k. i = jint k \<and> k < int (length u))"
    then obtain k where k: "i = jint k" "k < int (length u)" by blast
    then have "f u m (js_add i m) (out @ [js_slice u i (js_add i m)]) = Some y"
      using body by simp
    from ih[OF this] a k show False by simp
  qed
qed

lemma chunkUserIds_zero_never_ends:
  "userIds \<noteq> [] \<Longrightarrow> chunkUserIds userIds (jint 0) = None"
  using chunkUserIds_loop_zero[of userIds "jint 0" "jint 0" "[]"]
  by (cases "chunkUserIds userIds (jint 0)") (auto simp: chunkUserIds_def)

lemma classic_emits_mono:
  "classic_emits nfc chatId t i cap mtl b part p \<Longrightarrow> b \<le> b'
     \<Longrightarrow> classic_emits nfc chatId t i cap mtl b' part p"
  by (simp add: classic_emits_def)

lemma classic_while_result:
  assumes cap: "1 \<le> cap"
  shows "\<exists>r. classic_while nfc chatId t i (jint cap) mtl ov remaining payloads = Some r
           \<and> (\<forall>ps. r = Inr ps \<longrightarrow>
                 (\<exists>parts new. ps = payloads @ new \<and> concat parts = remaining
                    \<and> list_all2 (classic_emits nfc chatId t i cap mtl (length remaining))
                          parts new))"
proof (induction "length remaining" arbitrary: remaining payloads rule: less_induct)
  case less
  show ?case
  proof (cases "remaining = []")
    case True
    then show ?thesis by (subst classic_while.simps) simp
  next
    case False
    let ?take = "min (int (length remaining)) cap"
    let ?part = "js_slice remaining (jint 0) (jint ?take)"
    let ?rest = "js_slice_from remaining (jint ?take)"
    have tk: "1 \<le> ?take" using False cap by (cases remaining) auto
    have part: "?part = take (nat ?take) remaining" using tk by (simp add: slice_zero)
    have rest: "?rest = drop (nat ?take) remaining" using tk by (simp add: slice_from_nonneg)
    have part_ne: "?part \<noteq> []" using tk False unfolding part take_eq_Nil by linarith
    have part_cap: "int (length ?part) \<le> cap" using tk by (simp add: part)
    have part_len: "length ?part \<le> length remaining" by (simp add: part)
    have shorter: "length ?rest < length remaining" using tk False by (simp add: rest)
    have unf: "classic_while nfc chatId t i (jint cap) mtl ov remaining payloads =
        (case classic_iteration nfc chatId t i mtl ?part of
           Inl e \<Rightarrow> Some (Inl e)
         | Inr p \<Rightarrow>
             if ov = OvError \<and> length ?rest > 0
             then Some (Inl (ClassicOverflowSplitting (int (length ?rest))))
             else classic_while nfc chatId t i (jint cap) mtl ov ?rest (payloads @ [p]))"
      using False by (subst classic_while.simps) (simp add: Let_def split: sum.splits)
    show ?thesis
    proof (cases "classic_iteration nfc chatId t i mtl ?part")
      case (Inl e)
      then show ?thesis by (simp add: unf)
    next
      case (Inr p)
      have emit: "classic_emits nfc chatId t i cap mtl (length remaining) ?part p"
        using Inr part_ne part_cap part_len by (simp add: classic_emits_def)
      show ?thesis
      proof (cases "ov = OvError \<and> length ?rest > 0")
        case True
        then show ?thesis unfolding unf using Inr by simp
      next
        case no: False
        obtain r where r: "classic_while nfc chatId t i (jint cap) mtl ov ?rest (payloads @ [p])
                             = Some r"
          and rr: "\<forall>ps. r = Inr ps \<longrightarrow>
                 (\<exists>parts new. ps = (payloads @ [p]) @ new \<and> concat parts = ?rest
                    \<and> list_all2 (classic_emits nfc chatId t i cap mtl (length ?rest)) parts new)"
          using less.hyps[OF shorter, of "payloads @ [p]"] by blast
        have unfold: "classic_while nfc chatId t i (jint cap) mtl ov remaining payloads = Some r"
          using Inr no r by (auto simp: unf)
        have "\<exists>parts new. ps = payloads @ new \<and> concat parts = remaining
                \<and> list_all2 (classic_emits nfc chatId t i cap mtl (length remaining)) parts new"
          if eq: "r = Inr ps" for ps
        proof -
          obtain parts new where pn: "ps = (payloads @ [p]) @ new" "concat parts = ?rest"
            "list_all2 (classic_emits nfc chatId t i cap mtl (length ?rest)) parts new"
            using rr eq by blast
          have "list_all2 (classic_emits nfc chatId t i cap mtl (length remaining)) parts new"
            using pn(3) shorter
            by (auto elim!: list_all2_mono intro: classic_emits_mono)
          then have "list_all2 (classic_emits nfc chatId t i cap mtl (length remaining))
                       (?part # parts) (p # new)"
            using emit by simp
          moreover have "concat (?part # parts) = remaining"
            by (simp only: concat.simps pn(2) part rest append_take_drop_id)
          moreover have "ps = payloads @ (p # new)" using pn(1) by simp
          ultimately show ?thesis by blast
        qed
        then show ?thesis using unfold by blast
      qed
    qed
  qed
qed

lemma classic_for_result:
  assumes cap: "1 \<le> cap"
  shows "\<forall>c\<in>set chunks. length c \<le> bound \<Longrightarrow>
         \<exists>r. classic_for nfc chatId t i (jint cap) mtl ov chunks payloads = Some r
           \<and> (\<forall>ps. r = Inr ps \<longrightarrow>
                 (\<exists>parts new. ps = payloads @ new \<and> concat parts = concat chunks
                    \<and> list_all2 (classic_emits nfc chatId t i cap mtl bound) parts new))"
proof (induction chunks arbitrary: payloads)
  case Nil
  show ?case by simp
next
  case (Cons chunk chunks)
  show ?case
  proof (cases "ov = OvError \<and> js_gt (jint (int (length chunk))) (jint cap)")
    case True
    then show ?thesis by simp
  next
    case False
    obtain r where r: "classic_while nfc chatId t i (jint cap) mtl ov chunk payloads = Some r"
      and rr: "\<forall>ps. r = Inr ps \<longrightarrow>
                 (\<exists>parts new. ps = payloads @ new \<and> concat parts = chunk
                    \<and> list_all2 (classic_emits nfc chatId t i cap mtl (length chunk)) parts new)"
      using classic_while_result[OF cap, of nfc chatId t i mtl ov chunk payloads] by blast
    show ?thesis
    proof (cases r)
      case (Inl e)
      then show ?thesis using False r by simp
    next
      case (Inr mid)
      obtain parts1 new1 where m: "mid = payloads @ new1" "concat parts1 = chunk"
        "list_all2 (classic_emits nfc chatId t i cap mtl (length chunk)) parts1 new1"
        using rr Inr by blast
      have b1: "list_all2 (classic_emits nfc chatId t i cap mtl bound) parts1 new1"
        using m(3) Cons.prems
        by (auto elim!: list_all2_mono intro: classic_emits_mono)
      obtain r2 where r2: "classic_for nfc chatId t i (jint cap) mtl ov chunks mid = Some r2"
        and rr2: "\<forall>ps. r2 = Inr ps \<longrightarrow>
                 (\<exists>parts new. ps = mid @ new \<and> concat parts = concat chunks
                    \<and> list_all2 (classic_emits nfc chatId t i cap mtl bound) parts new)"
        using Cons.IH[of mid] Cons.prems by auto
      have unfold: "classic_for nfc chatId t i (jint cap) mtl ov (chunk # chunks) payloads
                      = Some r2"
        using False r Inr r2 by auto
      have "\<exists>parts new. ps = payloads @ new \<and> concat parts = concat (chunk # chunks)
                \<and> list_all2 (classic_emits nfc chatId t i cap mtl bound) parts new"
        if eq2: "r2 = Inr ps" for ps
      proof -
        obtain parts2 new2 where pn: "ps = mid @ new2" "concat parts2 = concat chunks"
          "list_all2 (classic_emits nfc chatId t i cap mtl bound) parts2 new2"
          using rr2 eq2 by blast
        have "list_all2 (classic_emits nfc chatId t i cap mtl bound) (parts1 @ parts2) (new1 @ new2)"
          using b1 pn(3) by (rule list_all2_appendI)
        moreover have "concat (parts1 @ parts2) = concat (chunk # chunks)"
          using m(2) pn(2) by simp
        moreover have "ps = payloads @ (new1 @ new2)" using pn(1) m(1) by simp
        ultimately show ?thesis by blast
      qed
      then show ?thesis using unfold by blast
    qed
  qed
qed

lemma capCountByLength_jint:
  "capCountByLength b (jint d) (jint m) = jint (max 0 (min d (max 0 (m - b))))"
  by (simp add: capCountByLength_def Let_def)

lemma smart_iteration_integer:
  assumes it: "smart_iteration nfc chatId userIds t msg i fb re sep trl (jint m) (jint mt) ov
                 (jint c) = Inr (p, tk)"
    and c0: "0 \<le> c"
  shows "\<exists>k. tk = jint k \<and> 1 \<le> k \<and> k \<le> m \<and> k \<le> int (length userIds) - c
           \<and> recipients p = take (nat k) (drop (nat c) userIds)
           \<and> int (length (ptext p)) \<le> mt"
proof -
  note f = smart_iteration_Inr[OF it]
  from f(1) obtain base where
    tk: "tk = jint (max 0 (min (min m (int (length userIds) - c)) (max 0 (mt - base))))"
    by (auto simp: capCountByLength_jint)
  define k where "k = max 0 (min (min m (int (length userIds) - c)) (max 0 (mt - base)))"
  have tkk: "tk = jint k" using tk by (simp add: k_def)
  have "k \<noteq> 0" using f(2) tkk by simp
  moreover have "0 \<le> k" by (simp add: k_def)
  ultimately have k1: "1 \<le> k" by linarith
  have km: "k \<le> m" and kl: "k \<le> int (length userIds) - c" using k1 by (auto simp: k_def)
  have "recipients p = take (nat k) (drop (nat c) userIds)"
    using f(4) c0 k1 by (simp add: tkk slice_nonneg nat_add_distrib)
  moreover have "int (length (ptext p)) \<le> mt" using f(5) by simp
  ultimately show ?thesis using tkk k1 km kl by blast
qed

lemma smart_loop_result:
  assumes c0: "0 \<le> c"
  shows "\<exists>r. smart_loop nfc chatId userIds t msg i fb re sep trl (jint m) (jint mt) ov (jint c)
                payloads = Some r
           \<and> (\<forall>ps. r = Inr ps \<longrightarrow>
                 (\<exists>new. ps = payloads @ new
                    \<and> concat (map recipients new) = drop (nat c) userIds
                    \<and> (\<forall>p\<in>set new. int (length (ptext p)) \<le> mt
                           \<and> int (length (recipients p)) \<le> m \<and> recipients p \<noteq> [])))"
  using c0
proof (induction "length userIds - nat c" arbitrary: c payloads rule: less_induct)
  case less
  show ?case
  proof (cases "c < int (length userIds)")
    case False
    then show ?thesis using less.prems by (subst smart_loop.simps) simp
  next
    case True
    show ?thesis
    proof (cases "smart_iteration nfc chatId userIds t msg i fb re sep trl (jint m) (jint mt) ov
                    (jint c)")
      case (Inl e)
      then show ?thesis using True by (subst smart_loop.simps) simp
    next
      case (Inr res)
      obtain p tk where res: "res = (p, tk)" by (cases res)
      note it = Inr[unfolded res]
      obtain k where k: "tk = jint k" "1 \<le> k" "k \<le> m" "k \<le> int (length userIds) - c"
        "recipients p = take (nat k) (drop (nat c) userIds)" "int (length (ptext p)) \<le> mt"
        using smart_iteration_integer[OF it less.prems] by blast
      have smaller: "length userIds - nat (c + k) < length userIds - nat c"
        using k(2) True less.prems by linarith
      have nonneg: "0 \<le> c + k" using k(2) less.prems by simp
      obtain r where r: "smart_loop nfc chatId userIds t msg i fb re sep trl (jint m) (jint mt) ov
                           (jint (c + k)) (payloads @ [p]) = Some r"
        and rr: "\<forall>ps. r = Inr ps \<longrightarrow>
                 (\<exists>new. ps = (payloads @ [p]) @ new
                    \<and> concat (map recipients new) = drop (nat (c + k)) userIds
                    \<and> (\<forall>p\<in>set new. int (length (ptext p)) \<le> mt
                           \<and> int (length (recipients p)) \<le> m \<and> recipients p \<noteq> []))"
        using less.hyps[OF smaller nonneg, of "payloads @ [p]"] by blast
      have unfold: "smart_loop nfc chatId userIds t msg i fb re sep trl (jint m) (jint mt) ov
                      (jint c) payloads = Some r"
        using True it r k(1) by (subst smart_loop.simps) simp
      have plen: "int (length (recipients p)) \<le> m \<and> recipients p \<noteq> []"
        using k(2,3,4) True less.prems by (auto simp: k(5))
      have "\<exists>new. ps = payloads @ new
                    \<and> concat (map recipients new) = drop (nat c) userIds
                    \<and> (\<forall>p\<in>set new. int (length (ptext p)) \<le> mt
                           \<and> int (length (recipients p)) \<le> m \<and> recipients p \<noteq> [])"
        if eq: "r = Inr ps" for ps
      proof -
        obtain new where n: "ps = (payloads @ [p]) @ new"
          "concat (map recipients new) = drop (nat (c + k)) userIds"
          "\<forall>p\<in>set new. int (length (ptext p)) \<le> mt
                           \<and> int (length (recipients p)) \<le> m \<and> recipients p \<noteq> []"
          using rr eq by blast
        have dr: "drop (nat (c + k)) userIds = drop (nat k) (drop (nat c) userIds)"
          using k(2) less.prems by (simp add: nat_add_distrib add.commute)
        have "concat (map recipients (p # new)) = drop (nat c) userIds"
          by (simp only: list.map concat.simps n(2) k(5) dr append_take_drop_id)
        moreover have "\<forall>p\<in>set (p # new). int (length (ptext p)) \<le> mt
                           \<and> int (length (recipients p)) \<le> m \<and> recipients p \<noteq> []"
          using n(3) plen k(6) by simp
        moreover have "ps = payloads @ (p # new)" using n(1) by simp
        ultimately show ?thesis by blast
      qed
      then show ?thesis using unfold by blast
    qed
  qed
qed

lemma classic_emits_recipients:
  "list_all2 (classic_emits nfc chatId t i cap mtl b) parts ps \<Longrightarrow> map recipients ps = parts"
proof (induction parts ps rule: list_all2_induct)
  case Nil
  show ?case by simp
next
  case (Cons part parts p ps)
  have "recipients p = part"
    using Cons.hyps(1) classic_iteration_Inr(6)
    unfolding classic_emits_def recipients_def by blast
  then show ?case using Cons.IH by simp
qed

lemma classic_emits_member:
  "list_all2 (classic_emits nfc chatId t i cap mtl b) parts ps \<Longrightarrow> p \<in> set ps
     \<Longrightarrow> \<exists>part. classic_emits nfc chatId t i cap mtl b part p"
  by (auto simp: in_set_conv_nth list_all2_conv_all_nth)

lemma js_max_one_jint: "js_max (jint 1) x = jint m \<Longrightarrow> 1 \<le> m"
  by (cases x) (auto simp: js_max_def jint_def split: if_splits)

section \<open>A run on integer limits\<close>

text \<open>
  When the cap that \<open>buildGhostPayloads\<close> computes and the limit \<open>maxTextLength\<close> are
  integers, the run ends, and if it returns, its payloads carry the recipients
  in order, none lost, within the cap and the limit.
\<close>

lemma buildGhostPayloads_integer_run:
  assumes cap: "js_max (jint 1) (coalesce (maxPerMessage opts) (jint 100)) = jint m"
    and lim: "coalesce (maxTextLength opts) DEFAULT_MAX_TEXT = jint mt"
  shows "\<exists>r. buildGhostPayloads nfc chatId userIds t opts = Some r
           \<and> (\<forall>ps. r = Inr ps \<longrightarrow>
                concat (map recipients ps) = userIds
                \<and> (\<forall>p\<in>set ps. int (length (ptext p)) \<le> mt
                      \<and> int (length (entities p)) \<le> m \<and> entities p \<noteq> []))"
proof (cases "userIds = []")
  case True
  then show ?thesis by (simp add: buildGhostPayloads_empty)
next
  case ne: False
  have m1: "1 \<le> m" using cap by (rule js_max_one_jint)
  show ?thesis
  proof (cases "smartMode t")
    case True
    show ?thesis
      unfolding buildGhostPayloads_smart_eq[OF ne True] cap lim
      using smart_loop_result[of 0 nfc chatId userIds t "the (message t)" "smart_marker t"
          "case fallbackPosition t of
                Some f \<Rightarrow> f
              | None \<Rightarrow> if coalesce (preferEndIfNoPunctuation t) True then FbEnd else FbStart"
          "coalesce (punctuationRegex t) DEFAULT_PUNCT_RE"
          "coalesce (separateLineForMentions t) False" "coalesce (trailingNewline t) False"
          m mt "coalesce (onOverflow opts) OvSplit" "[]"]
      by (fastforce simp: recipients_def)
  next
    case False
    let ?P = "nfc (coalesce (before t) [])" and ?S = "nfc (coalesce (after t) [])"
    let ?cap = "max 0 (mt - (int (length ?P) + int (length ?S)))"
    obtain chunks where ch: "chunkUserIds userIds (jint m) = Some chunks"
      "concat chunks = userIds" "\<forall>c\<in>set chunks. c \<noteq> [] \<and> int (length c) \<le> m"
      using chunkUserIds_Some[OF m1, of userIds] by auto
    note eq = buildGhostPayloads_classic_eq[OF ne False, of nfc chatId opts, unfolded cap lim ch(1)]
    show ?thesis
    proof (cases "js_includes ?P (classic_marker t) \<or> js_includes ?S (classic_marker t)")
      case True
      then show ?thesis unfolding eq by simp
    next
      case inc: False
      show ?thesis
      proof (cases "?cap \<le> 0")
        case True
        then show ?thesis using inc unfolding eq by simp
      next
        case pos: False
        then have c1: "1 \<le> ?cap" by simp
        have bound: "\<forall>c\<in>set chunks. length c \<le> nat m" using ch(3) by auto
        obtain r where r: "classic_for nfc chatId t (classic_marker t) (jint ?cap) (jint mt)
                             (coalesce (onOverflow opts) OvSplit) chunks [] = Some r"
          and rr: "\<forall>ps. r = Inr ps \<longrightarrow>
                   (\<exists>parts new. ps = [] @ new \<and> concat parts = concat chunks
                      \<and> list_all2 (classic_emits nfc chatId t (classic_marker t) ?cap (jint mt)
                                     (nat m)) parts new)"
          using classic_for_result[OF c1 bound, of nfc chatId t "classic_marker t" "jint mt"
                  "coalesce (onOverflow opts) OvSplit" "[]"] by blast
        have run: "buildGhostPayloads nfc chatId userIds t opts = Some r"
          using inc pos r unfolding eq by simp
        have "concat (map recipients ps) = userIds
                \<and> (\<forall>p\<in>set ps. int (length (ptext p)) \<le> mt
                      \<and> int (length (entities p)) \<le> m \<and> entities p \<noteq> [])"
          if e: "r = Inr ps" for ps
        proof -
          obtain parts where pc: "concat parts = userIds"
            "list_all2 (classic_emits nfc chatId t (classic_marker t) ?cap (jint mt) (nat m))
               parts ps"
            using rr e ch(2) by auto
          have "concat (map recipients ps) = userIds"
            using classic_emits_recipients[OF pc(2)] pc(1) by simp
          moreover have "int (length (ptext p)) \<le> mt
                      \<and> int (length (entities p)) \<le> m \<and> entities p \<noteq> []"
            if p: "p \<in> set ps" for p
          proof -
            obtain part where em: "classic_emits nfc chatId t (classic_marker t) ?cap (jint mt)
                                     (nat m) part p"
              using classic_emits_member[OF pc(2) p] by blast
            then have it: "classic_iteration nfc chatId t (classic_marker t) (jint mt) part = Inr p"
              and pne: "part \<noteq> []" and pb: "length part \<le> nat m"
              by (simp_all add: classic_emits_def)
            have "length (entities p) = length part"
              using classic_iteration_Inr(6)[OF it] by (metis length_map)
            then show ?thesis using classic_iteration_Inr(4)[OF it] pne pb m1 by auto
          qed
          ultimately show ?thesis by blast
        qed
        then show ?thesis using run by blast
      qed
    qed
  qed
qed

section \<open>Claims about the marker\<close>

text \<open>
  C7. When every candidate of one code unit occurs in a string to avoid,
  \<open>pickInvChar\<close> should return the first candidate of exactly one code unit. It
  returns \<open>candidates[0]\<close> whatever its length: for the candidates \<open>"ab"\<close>, \<open>"c"\<close> and
  the text \<open>"c"\<close> to avoid, the result is \<open>"ab"\<close>, of two code units, and not \<open>"c"\<close>.
  The older \<open>pickInvChar\<close> of \<open>src/index.ts\<close> returns \<open>"ab"\<close> on this input too.
\<close>

theorem pickInvChar_fallback_ignores_length:
  "pickInvChar [[0x61, 0x62], [0x63]] [Some [0x63]] = [0x61, 0x62]
   \<and> pickInvChar_loop [[0x61, 0x62], [0x63]] [Some [0x63]] = None
   \<and> length [0x61, 0x62 :: cu] = 2
   \<and> pickInvChar_index [[0x61, 0x62], [0x63]] [Some [0x63]] = Some [0x61, 0x62]"
  by (simp add: pickInvChar_def pickInvChar_index_def)

text \<open>
  C2. When \<open>buildGhostPayloads\<close> returns, the marker should not occur in the text the
  caller gave. Smart mode never calls \<open>assertNoExistingInv\<close>: for the message
  \<open>"H"\<close> followed by U+200B and the forced marker U+200B it returns a payload, and
  so it does when the only candidate is U+200B and \<open>pickInvChar\<close> falls back to it.
  Classic mode throws on the same text given as \<open>before\<close>.
\<close>

theorem smart_mode_accepts_marker_collision:
  "buildGhostPayloads (\<lambda>s. s) (ChatNum 5) [10]
     (empty_template\<lparr>message := Some [0x48, 0x200B], char := Some [0x200B]\<rparr>) default_options
   = Some (Inr [\<lparr>chat_id = ChatNum 5, ptext = [0x48, 0x200B, 0x200B],
                  entities = [\<lparr>type' = text_mention, offset = 2, length' = 1, user = 10\<rparr>]\<rparr>])
   \<and> buildGhostPayloads (\<lambda>s. s) (ChatNum 5) [10]
     (empty_template\<lparr>message := Some [0x48, 0x200B], charCandidates := Some [[0x200B]]\<rparr>)
     default_options
   = Some (Inr [\<lparr>chat_id = ChatNum 5, ptext = [0x48, 0x200B, 0x200B],
                  entities = [\<lparr>type' = text_mention, offset = 2, length' = 1, user = 10\<rparr>]\<rparr>])
   \<and> js_includes [0x48, 0x200B] [0x200B :: cu]
   \<and> buildGhostPayloads (\<lambda>s. s) (ChatNum 5) [10]
     (empty_template\<lparr>before := Some [0x48, 0x200B], char := Some [0x200B]\<rparr>) default_options
   = Some (Inl (InvCharInTemplate [0x200B]))"
  by code_simp

section \<open>Claims about offsets\<close>

text \<open>
  C8. When \<open>buildGhostPayloads\<close> returns, every mention should lie inside the text:
  \<open>offset + length \<le> text.length\<close>. With the empty string as marker, forced by
  \<open>char\<close> or reached through the fallback of \<open>pickInvChar\<close> on the candidate list
  \<open>[""]\<close>, smart mode returns the message unchanged with a mention of length 1 at
  its end: offset 2 in a text of 2 code units.
\<close>

theorem smart_mode_empty_marker_offset_outside_text:
  "buildGhostPayloads (\<lambda>s. s) (ChatNum 5) [10]
     (empty_template\<lparr>message := Some [0x48, 0x69], char := Some []\<rparr>) default_options
   = Some (Inr [\<lparr>chat_id = ChatNum 5, ptext = [0x48, 0x69],
                  entities = [\<lparr>type' = text_mention, offset = 2, length' = 1, user = 10\<rparr>]\<rparr>])
   \<and> buildGhostPayloads (\<lambda>s. s) (ChatNum 5) [10]
     (empty_template\<lparr>message := Some [0x48, 0x69], charCandidates := Some [[]]\<rparr>)
     default_options
   = Some (Inr [\<lparr>chat_id = ChatNum 5, ptext = [0x48, 0x69],
                  entities = [\<lparr>type' = text_mention, offset = 2, length' = 1, user = 10\<rparr>]\<rparr>])
   \<and> \<not> (2 + 1 \<le> int (length [0x48, 0x69 :: cu]))"
  by code_simp

section \<open>The mode of a template: claim\<close>

text \<open>
  C1, as the code has it. A template that has \<open>before\<close> or \<open>after\<close> together with
  \<open>message\<close> raises no configuration error: \<open>buildGhostPayloads\<close> runs classic mode
  on \<open>before\<close> and \<open>after\<close> and never reads \<open>message\<close>, so it returns, or throws,
  exactly what it does for the same template without \<open>message\<close>.
\<close>

theorem mixed_template_runs_classic_mode:
  assumes "before template \<noteq> None \<or> after template \<noteq> None"
  shows "\<not> smartMode template
         \<and> buildGhostPayloads nfc chatId userIds template opts
             = buildGhostPayloads nfc chatId userIds (template\<lparr>message := None\<rparr>) opts"
proof
  show cl: "\<not> smartMode template" using assms by (auto simp: smartMode_def)
  have cl': "\<not> smartMode (template\<lparr>message := None\<rparr>)" by (simp add: smartMode_def)
  show "buildGhostPayloads nfc chatId userIds template opts
          = buildGhostPayloads nfc chatId userIds (template\<lparr>message := None\<rparr>) opts"
  proof (cases "userIds = []")
    case True
    then show ?thesis by (simp add: buildGhostPayloads_empty)
  next
    case False
    have same: "classic_for nfc chatId (template\<lparr>message := None\<rparr>) (classic_marker template)
                  cap mtl ov chunks []
                = classic_for nfc chatId template (classic_marker template) cap mtl ov chunks []"
      for cap mtl ov chunks
      by (intro classic_for_cong classic_iteration_message)
    have sel: "before (template\<lparr>message := None\<rparr>) = before template"
      "after (template\<lparr>message := None\<rparr>) = after template"
      by simp_all
    show ?thesis
      unfolding buildGhostPayloads_classic_eq[OF False cl]
        buildGhostPayloads_classic_eq[OF False cl'] classic_marker_message same sel
      by (rule refl)
  qed
qed

theorem mixed_template_runs_classic_mode_witness:
  "before (empty_template\<lparr>before := Some [0x41], message := Some [0x48, 0x69]\<rparr>) \<noteq> None
   \<and> \<not> smartMode (empty_template\<lparr>before := Some [0x41], message := Some [0x48, 0x69]\<rparr>)
   \<and> buildGhostPayloads (\<lambda>s. s) (ChatNum 5) [10]
        (empty_template\<lparr>before := Some [0x41], message := Some [0x48, 0x69]\<rparr>) default_options
      = Some (Inr [\<lparr>chat_id = ChatNum 5, ptext = [0x41, 0x200B],
                     entities = [\<lparr>type' = text_mention, offset = 1, length' = 1,
                                  user = 10\<rparr>]\<rparr>])"
proof -
  have h: "before (empty_template\<lparr>before := Some [0x41], message := Some [0x48, 0x69]\<rparr>) \<noteq> None
           \<or> after (empty_template\<lparr>before := Some [0x41], message := Some [0x48, 0x69]\<rparr>) \<noteq> None"
    by (simp add: empty_template_def)
  have run: "buildGhostPayloads (\<lambda>s. s) (ChatNum 5) [10]
        ((empty_template\<lparr>before := Some [0x41], message := Some [0x48, 0x69]\<rparr>)
           \<lparr>message := None\<rparr>) default_options
      = Some (Inr [\<lparr>chat_id = ChatNum 5, ptext = [0x41, 0x200B],
                     entities = [\<lparr>type' = text_mention, offset = 1, length' = 1,
                                  user = 10\<rparr>]\<rparr>])"
    by code_simp
  note t = mixed_template_runs_classic_mode[OF h, of "\<lambda>s. s" "ChatNum 5" "[10]" default_options]
  show ?thesis using t run by (simp add: empty_template_def)
qed

text \<open>
  C1 as stated fails: for the template with \<open>before = "A"\<close> and \<open>message = "Hi"\<close> and
  one recipient, \<open>buildGhostPayloads\<close> throws nothing and returns one payload, built
  in classic mode from \<open>before\<close>.
\<close>

theorem mixed_template_counterexample:
  "buildGhostPayloads (\<lambda>s. s) (ChatNum 5) [10]
     (empty_template\<lparr>before := Some [0x41], message := Some [0x48, 0x69]\<rparr>) default_options
   = Some (Inr [\<lparr>chat_id = ChatNum 5, ptext = [0x41, 0x200B],
                  entities = [\<lparr>type' = text_mention, offset = 1, length' = 1, user = 10\<rparr>]\<rparr>])"
  by code_simp

section \<open>Text and offsets in classic mode\<close>

lemma buildInvisibleText_eq:
  "buildInvisibleText nfc n t = buildInvisibleText nfc n (t\<lparr>char := Some (classic_marker t)\<rparr>)"
  by (simp add: buildInvisibleText_def classic_marker_def)

lemma buildInvisibleText_Inr:
  assumes "buildInvisibleText nfc n t = Inr r" and "1 \<le> n"
  shows "it_text r = nfc (coalesce (before t) []) @ concat (replicate (nat n) (classic_marker t))
                       @ nfc (coalesce (after t) [])"
    and "it_invChar r = classic_marker t"
    and "it_offsets r = map (\<lambda>k. int (length (nfc (coalesce (before t) []))) + int k)
                          [0..<nat n]"
proof -
  have r: "r = \<lparr>it_text = nfc (coalesce (before t) []) @ js_repeat (classic_marker t) n
                            @ nfc (coalesce (after t) []),
                it_offsets = map (\<lambda>k. int (length (nfc (coalesce (before t) []))) + int k)
                               [0..<nat n],
                it_invChar = classic_marker t\<rparr>"
    using assms unfolding buildInvisibleText_eq[of nfc n t] buildInvisibleText_char
    by (auto split: if_splits)
  show "it_text r = nfc (coalesce (before t) []) @ concat (replicate (nat n) (classic_marker t))
                       @ nfc (coalesce (after t) [])"
    by (simp add: r js_repeat_def)
  show "it_invChar r = classic_marker t" by (simp add: r)
  show "it_offsets r = map (\<lambda>k. int (length (nfc (coalesce (before t) []))) + int k)
                          [0..<nat n]"
    by (simp add: r)
qed

lemma buildInvisibleText_succeeds:
  assumes "\<not> js_includes (nfc (coalesce (before t) [])) (classic_marker t)"
    and "\<not> js_includes (nfc (coalesce (after t) [])) (classic_marker t)"
  shows "\<exists>r. buildInvisibleText nfc n t = Inr r"
  using assms unfolding buildInvisibleText_eq[of nfc n t] buildInvisibleText_char by simp

text \<open>
  C6, as the code has it. The prefix and suffix that count are the normalised
  ones: let \<open>P\<close> be \<open>toNFC(before ?? "")\<close> and \<open>S\<close> be \<open>toNFC(after ?? "")\<close>. For a
  count \<open>n \<ge> 1\<close>, \<open>buildInvisibleText\<close> (the same text in \<open>src/index.ts\<close>) returns
  whenever the marker occurs neither in \<open>P\<close> nor in \<open>S\<close>, and what it returns is
  the text \<open>P\<close>, then the marker repeated \<open>n\<close> times, then \<open>S\<close>, with the offsets
  \<open>P.length + i\<close> for \<open>0 \<le> i < n\<close>; \<open>buildEntities\<close> turns them into mentions of
  length 1. Every payload that \<open>buildGhostPayloads\<close> returns in classic mode has
  this shape for its own number of recipients. For \<open>before = "A"\<close>, \<open>after = "B"\<close>,
  which normalisation leaves alone, and the count 3 the text has 5 code units and
  the offsets are 1, 2, 3.
\<close>

theorem fixed_affix_text_and_offsets:
  "(1 \<le> n \<and> buildInvisibleText nfc n template = Inr r
      \<longrightarrow> it_text r = nfc (coalesce (before template) [])
                        @ concat (replicate (nat n) (it_invChar r))
                        @ nfc (coalesce (after template) [])
          \<and> it_invChar r = classic_marker template
          \<and> it_offsets r = map (\<lambda>i. int (length (nfc (coalesce (before template) []))) + int i)
                              [0..<nat n]
          \<and> (length ids = nat n
              \<longrightarrow> buildEntities (it_offsets r) ids
                    = Inr (map (\<lambda>i. \<lparr>type' = text_mention,
                                       offset = int (length (nfc (coalesce (before template) [])))
                                                + int i,
                                       length' = 1, user = ids ! i\<rparr>) [0..<nat n])))
   \<and> (\<not> js_includes (nfc (coalesce (before template) [])) (classic_marker template)
        \<and> \<not> js_includes (nfc (coalesce (after template) [])) (classic_marker template)
      \<longrightarrow> (\<exists>r'. buildInvisibleText nfc n template = Inr r'))
   \<and> (\<not> smartMode template
        \<and> buildGhostPayloads nfc chatId userIds template opts = Some (Inr payloads)
        \<and> p \<in> set payloads
      \<longrightarrow> ptext p = nfc (coalesce (before template) [])
                      @ concat (replicate (length (entities p)) (classic_marker template))
                      @ nfc (coalesce (after template) [])
          \<and> (\<forall>i<length (entities p).
                offset (entities p ! i)
                  = int (length (nfc (coalesce (before template) []))) + int i
                \<and> length' (entities p ! i) = 1))
   \<and> (nfc [0x41] = [0x41] \<and> nfc [0x42] = [0x42]
      \<longrightarrow> buildInvisibleText nfc 3 (empty_template\<lparr>before := Some [0x41], after := Some [0x42]\<rparr>)
            = Inr \<lparr>it_text = [0x41, 0x200B, 0x200B, 0x200B, 0x42], it_offsets = [1, 2, 3],
                    it_invChar = [0x200B]\<rparr>
          \<and> length [0x41, 0x200B, 0x200B, 0x200B, 0x42 :: cu] = 5)"
proof (intro conjI impI)
  assume a: "1 \<le> n \<and> buildInvisibleText nfc n template = Inr r"
  note f = buildInvisibleText_Inr[OF conjunct2[OF a] conjunct1[OF a]]
  show "it_text r = nfc (coalesce (before template) [])
                        @ concat (replicate (nat n) (it_invChar r))
                        @ nfc (coalesce (after template) [])"
    by (simp add: f(1) f(2))
  show "it_invChar r = classic_marker template" by (rule f(2))
  show "it_offsets r = map (\<lambda>i. int (length (nfc (coalesce (before template) []))) + int i)
                              [0..<nat n]"
    by (rule f(3))
  assume "length ids = nat n"
  then show "buildEntities (it_offsets r) ids
                    = Inr (map (\<lambda>i. \<lparr>type' = text_mention,
                                       offset = int (length (nfc (coalesce (before template) [])))
                                                + int i,
                                       length' = 1, user = ids ! i\<rparr>) [0..<nat n])"
    by (simp add: buildEntities_def f(3))
next
  assume "\<not> js_includes (nfc (coalesce (before template) [])) (classic_marker template)
        \<and> \<not> js_includes (nfc (coalesce (after template) [])) (classic_marker template)"
  then show "\<exists>r'. buildInvisibleText nfc n template = Inr r'"
    using buildInvisibleText_succeeds by blast
next
  assume a: "\<not> smartMode template
        \<and> buildGhostPayloads nfc chatId userIds template opts = Some (Inr payloads)
        \<and> p \<in> set payloads"
  then have cl: "\<not> smartMode template"
    and ok: "buildGhostPayloads nfc chatId userIds template opts = Some (Inr payloads)"
    and p: "p \<in> set payloads"
    by simp_all
  note s = classic_payload_shape[OF cl ok p]
  show "ptext p = nfc (coalesce (before template) [])
                      @ concat (replicate (length (entities p)) (classic_marker template))
                      @ nfc (coalesce (after template) [])"
    by (rule s(1))
  show "\<forall>i<length (entities p).
                offset (entities p ! i)
                  = int (length (nfc (coalesce (before template) []))) + int i
                \<and> length' (entities p ! i) = 1"
  proof (intro allI impI)
    fix i assume i: "i < length (entities p)"
    have "offset (entities p ! i) = map offset (entities p) ! i" using i by simp
    also have "\<dots> = int (length (nfc (coalesce (before template) []))) + int i"
      using i unfolding s(2) by simp
    finally have o: "offset (entities p ! i)
                  = int (length (nfc (coalesce (before template) []))) + int i" .
    have "length' (entities p ! i) = 1" using s(3) i by simp
    with o show "offset (entities p ! i)
                  = int (length (nfc (coalesce (before template) []))) + int i
                \<and> length' (entities p ! i) = 1" by simp
  qed
next
  assume a: "nfc [0x41] = [0x41] \<and> nfc [0x42] = [0x42]"
  then show "buildInvisibleText nfc 3 (empty_template\<lparr>before := Some [0x41], after := Some [0x42]\<rparr>)
            = Inr \<lparr>it_text = [0x41, 0x200B, 0x200B, 0x200B, 0x42], it_offsets = [1, 2, 3],
                    it_invChar = [0x200B]\<rparr>"
    by (simp add: buildInvisibleText_def empty_template_def coalesce_def pickInvChar_def
          DEFAULT_INV_CANDIDATES_def assertNoExistingInv_def js_repeat_def Let_def
          upt_conv_Cons numeral_3_eq_3)
next
  show "length [0x41, 0x200B, 0x200B, 0x200B, 0x42 :: cu] = 5" by simp
qed

theorem fixed_affix_text_and_offsets_witness:
  "((1::int) \<le> 3
     \<and> buildInvisibleText (\<lambda>s. s) 3 (empty_template\<lparr>before := Some [0x41], after := Some [0x42]\<rparr>)
       = Inr \<lparr>it_text = [0x41, 0x200B, 0x200B, 0x200B, 0x42], it_offsets = [1, 2, 3],
               it_invChar = [0x200B]\<rparr>)
   \<and> buildEntities [1, 2, 3] [10, 20, 30]
       = Inr [\<lparr>type' = text_mention, offset = 1, length' = 1, user = 10\<rparr>,
              \<lparr>type' = text_mention, offset = 2, length' = 1, user = 20\<rparr>,
              \<lparr>type' = text_mention, offset = 3, length' = 1, user = 30\<rparr>]
   \<and> (\<not> smartMode (empty_template\<lparr>before := Some [0x41], after := Some [0x42]\<rparr>)
     \<and> buildGhostPayloads (\<lambda>s. s) (ChatNum 5) [10, 20, 30]
         (empty_template\<lparr>before := Some [0x41], after := Some [0x42]\<rparr>) default_options
       = Some (Inr [\<lparr>chat_id = ChatNum 5, ptext = [0x41, 0x200B, 0x200B, 0x200B, 0x42],
                      entities = [\<lparr>type' = text_mention, offset = 1, length' = 1, user = 10\<rparr>,
                                  \<lparr>type' = text_mention, offset = 2, length' = 1, user = 20\<rparr>,
                                  \<lparr>type' = text_mention, offset = 3, length' = 1, user = 30\<rparr>]\<rparr>]))
   \<and> length [0x41, 0x200B, 0x200B, 0x200B, 0x42 :: cu] = 5"
proof -
  have h1: "(1::int) \<le> 3
     \<and> buildInvisibleText (\<lambda>s. s) 3 (empty_template\<lparr>before := Some [0x41], after := Some [0x42]\<rparr>)
       = Inr \<lparr>it_text = [0x41, 0x200B, 0x200B, 0x200B, 0x42], it_offsets = [1, 2, 3],
               it_invChar = [0x200B]\<rparr>"
    by code_simp
  have h3: "\<not> smartMode (empty_template\<lparr>before := Some [0x41], after := Some [0x42]\<rparr>)
     \<and> buildGhostPayloads (\<lambda>s. s) (ChatNum 5) [10, 20, 30]
         (empty_template\<lparr>before := Some [0x41], after := Some [0x42]\<rparr>) default_options
       = Some (Inr [\<lparr>chat_id = ChatNum 5, ptext = [0x41, 0x200B, 0x200B, 0x200B, 0x42],
                      entities = [\<lparr>type' = text_mention, offset = 1, length' = 1, user = 10\<rparr>,
                                  \<lparr>type' = text_mention, offset = 2, length' = 1, user = 20\<rparr>,
                                  \<lparr>type' = text_mention, offset = 3, length' = 1, user = 30\<rparr>]\<rparr>])
     \<and> \<lparr>chat_id = ChatNum 5, ptext = [0x41, 0x200B, 0x200B, 0x200B, 0x42],
                      entities = [\<lparr>type' = text_mention, offset = 1, length' = 1, user = 10\<rparr>,
                                  \<lparr>type' = text_mention, offset = 2, length' = 1, user = 20\<rparr>,
                                  \<lparr>type' = text_mention, offset = 3, length' = 1, user = 30\<rparr>]\<rparr>
        \<in> set [\<lparr>chat_id = ChatNum 5, ptext = [0x41, 0x200B, 0x200B, 0x200B, 0x42],
                      entities = [\<lparr>type' = text_mention, offset = 1, length' = 1, user = 10\<rparr>,
                                  \<lparr>type' = text_mention, offset = 2, length' = 1, user = 20\<rparr>,
                                  \<lparr>type' = text_mention, offset = 3, length' = 1, user = 30\<rparr>]\<rparr>]"
    by code_simp
  have h5: "length [10, 20, 30 :: int] = nat 3" by simp
  note t = fixed_affix_text_and_offsets[where n = 3 and nfc = "\<lambda>s. s"
      and template = "empty_template\<lparr>before := Some [0x41], after := Some [0x42]\<rparr>"
      and r = "\<lparr>it_text = [0x41, 0x200B, 0x200B, 0x200B, 0x42], it_offsets = [1, 2, 3],
               it_invChar = [0x200B]\<rparr>"
      and ids = "[10, 20, 30]" and chatId = "ChatNum 5" and userIds = "[10, 20, 30]"
      and opts = default_options
      and payloads = "[\<lparr>chat_id = ChatNum 5, ptext = [0x41, 0x200B, 0x200B, 0x200B, 0x42],
                      entities = [\<lparr>type' = text_mention, offset = 1, length' = 1, user = 10\<rparr>,
                                  \<lparr>type' = text_mention, offset = 2, length' = 1, user = 20\<rparr>,
                                  \<lparr>type' = text_mention, offset = 3, length' = 1, user = 30\<rparr>]\<rparr>]"
      and p = "\<lparr>chat_id = ChatNum 5, ptext = [0x41, 0x200B, 0x200B, 0x200B, 0x42],
                      entities = [\<lparr>type' = text_mention, offset = 1, length' = 1, user = 10\<rparr>,
                                  \<lparr>type' = text_mention, offset = 2, length' = 1, user = 20\<rparr>,
                                  \<lparr>type' = text_mention, offset = 3, length' = 1, user = 30\<rparr>]\<rparr>"]
  from t h1 h5 have "buildEntities (it_offsets \<lparr>it_text = [0x41, 0x200B, 0x200B, 0x200B, 0x42],
                        it_offsets = [1, 2, 3], it_invChar = [0x200B]\<rparr>) [10, 20, 30]
         = Inr (map (\<lambda>i. \<lparr>type' = text_mention,
                 offset = int (length ((\<lambda>s. s) (coalesce (before
                            (empty_template\<lparr>before := Some [0x41], after := Some [0x42]\<rparr>)) [])))
                          + int i,
                 length' = 1, user = [10, 20, 30] ! i\<rparr>) [0..<nat 3])"
    by blast
  then have ents: "buildEntities [1, 2, 3] [10, 20, 30]
       = Inr [\<lparr>type' = text_mention, offset = 1, length' = 1, user = 10\<rparr>,
              \<lparr>type' = text_mention, offset = 2, length' = 1, user = 20\<rparr>,
              \<lparr>type' = text_mention, offset = 3, length' = 1, user = 30\<rparr>]"
    by (simp add: empty_template_def coalesce_def upt_conv_Cons numeral_3_eq_3)
  have run: "\<not> smartMode (empty_template\<lparr>before := Some [0x41], after := Some [0x42]\<rparr>)
     \<and> buildGhostPayloads (\<lambda>s. s) (ChatNum 5) [10, 20, 30]
         (empty_template\<lparr>before := Some [0x41], after := Some [0x42]\<rparr>) default_options
       = Some (Inr [\<lparr>chat_id = ChatNum 5, ptext = [0x41, 0x200B, 0x200B, 0x200B, 0x42],
                      entities = [\<lparr>type' = text_mention, offset = 1, length' = 1, user = 10\<rparr>,
                                  \<lparr>type' = text_mention, offset = 2, length' = 1, user = 20\<rparr>,
                                  \<lparr>type' = text_mention, offset = 3, length' = 1, user = 30\<rparr>]\<rparr>])"
    using h3 by blast
  have len: "length [0x41, 0x200B, 0x200B, 0x200B, 0x42 :: cu] = 5" by simp
  show ?thesis by (intro conjI h1[THEN conjunct1] h1[THEN conjunct2] ents
        run[THEN conjunct1] run[THEN conjunct2] len)
qed
text \<open>
  C6 as stated, with the prefix as the caller wrote it, fails on a prefix that is
  not in normal form C. For \<open>before\<close> = \<open>e\<close> followed by U+0301 (2 code units) and
  the count 1, the text is U+00E9 followed by the marker and the offset is 1: the
  text does not start with the caller's prefix, and the offset is not its length.
\<close>

theorem fixed_affix_prefix_counterexample:
  "buildInvisibleText nfc_e_acute 1 (empty_template\<lparr>before := Some [0x65, 0x301]\<rparr>)
     = Inr \<lparr>it_text = [0xE9, 0x200B], it_offsets = [1], it_invChar = [0x200B]\<rparr>
   \<and> [0xE9, 0x200B] \<noteq> [0x65, 0x301] @ concat (replicate 1 [0x200B :: cu]) @ []
   \<and> (1 :: int) \<noteq> int (length [0x65, 0x301 :: cu]) + 0"
  by code_simp

section \<open>The anchor\<close>

lemma scan_back_None:
  "scan_back p src n = None \<longleftrightarrow> (\<forall>j<n. \<not> p [src ! j])"
  by (induction n) (auto simp: less_Suc_eq)

lemma scan_back_Some:
  "scan_back p src n = Some i \<longleftrightarrow>
     i < n \<and> p [src ! i] \<and> (\<forall>j. i < j \<and> j < n \<longrightarrow> \<not> p [src ! j])"
proof (induction n)
  case 0
  show ?case by simp
next
  case (Suc n)
  show ?case
  proof (cases "p [src ! n]")
    case True
    then show ?thesis by (auto simp: less_Suc_eq)
  next
    case False
    then show ?thesis using Suc by (auto simp: less_Suc_eq)
  qed
qed

text \<open>
  The part of C3 that the code keeps: for a \<open>replacePosition\<close> that is not a finite
  number and targets that are not empty, the anchor is \<open>i + 1\<close> (\<open>i\<close> for \<open>"start"\<close>)
  at the largest index \<open>i\<close> whose character is a target.
\<close>

lemma findAnchorIndex_last_target:
  assumes "\<forall>r. rp \<noteq> Some (PosNum (Num r))" and "targets \<noteq> []"
    and "i < length src" and "[src ! i] \<in> set targets"
    and "\<forall>j. i < j \<and> j < length src \<longrightarrow> [src ! j] \<notin> set targets"
  shows "findAnchorIndex src (Some targets) rp re fb
           = (if rp = Some PosStart then int i else int i + 1)"
proof -
  have s: "scan_back (\<lambda>c. c \<in> set targets) src (length src) = Some i"
    using assms(3,4,5) by (simp add: scan_back_Some)
  show ?thesis
  proof (cases rp)
    case None
    then show ?thesis using assms(2) s by (simp add: findAnchorIndex_def)
  next
    case (Some pos)
    show ?thesis
    proof (cases pos)
      case PosStart
      then show ?thesis using Some assms(2) s by (simp add: findAnchorIndex_def)
    next
      case PosEnd
      then show ?thesis using Some assms(2) s by (simp add: findAnchorIndex_def)
    next
      case (PosNum n)
      then show ?thesis using Some assms(1,2) s
        by (cases n) (simp_all add: findAnchorIndex_def)
    qed
  qed
qed

text \<open>
  C3. With targets that are not empty and a \<open>replacePosition\<close> that is not a number,
  \<open>findAnchorIndex\<close> should return 0 or the length of the message, as
  \<open>fallbackPosition\<close> says, when no character of the message is a target. The loop
  over the targets has no return behind it, so the code goes on to the punctuation
  scan, which the source keeps as the legacy heuristic for templates without
  targets. On the message \<open>"Hi. x"\<close> with the single target \<open>"#"\<close> and the fallback
  \<open>"end"\<close> the anchor is 3, after the full stop that the default pattern finds,
  and not the length 5; \<open>buildGhostPayloads\<close> puts the marker there.
\<close>

theorem findAnchorIndex_falls_through_to_punctuation:
  "0x23 \<notin> set [0x48, 0x69, 0x2E, 0x20, 0x78 :: cu]
   \<and> findAnchorIndex [0x48, 0x69, 0x2E, 0x20, 0x78] (Some [[0x23]]) (Some PosEnd)
        (Some DEFAULT_PUNCT_RE) FbEnd = 3
   \<and> int (length [0x48, 0x69, 0x2E, 0x20, 0x78 :: cu]) = 5
   \<and> buildGhostPayloads (\<lambda>s. s) (ChatNum 5) [10]
        (empty_template\<lparr>message := Some [0x48, 0x69, 0x2E, 0x20, 0x78],
                         replaceTargets := Some [[0x23]], fallbackPosition := Some FbEnd\<rparr>)
        default_options
      = Some (Inr [\<lparr>chat_id = ChatNum 5, ptext = [0x48, 0x69, 0x2E, 0x200B, 0x20, 0x78],
                     entities = [\<lparr>type' = text_mention, offset = 3, length' = 1,
                                  user = 10\<rparr>]\<rparr>])"
  by code_simp

section \<open>Claims about the batching\<close>

lemma js_max_below_one: "js_lt m (jint 1) \<Longrightarrow> js_max (jint 1) m = jint 1"
  by (cases m) (auto simp: js_max_def jint_def)

lemma buildGhostPayloads_clamp:
  "js_lt m (jint 1) \<Longrightarrow>
     buildGhostPayloads nfc chatId userIds t (opts\<lparr>maxPerMessage := Some m\<rparr>)
     = buildGhostPayloads nfc chatId userIds t (opts\<lparr>maxPerMessage := Some (jint 1)\<rparr>)"
  by (simp add: buildGhostPayloads_def coalesce_def js_max_below_one)

lemma buildGhostPayloads_nonempty:
  assumes cap: "js_max (jint 1) (coalesce (maxPerMessage opts) (jint 100)) = jint m"
    and ne: "userIds \<noteq> []"
    and ok: "buildGhostPayloads nfc chatId userIds t opts = Some (Inr ps)"
  shows "ps \<noteq> []"
proof (cases "smartMode t")
  case True
  have "js_lt (jint 0) (jint (int (length userIds)))" using ne by simp
  then show ?thesis
    using smart_loop_partial[OF ok[unfolded buildGhostPayloads_smart_eq[OF ne True]]] by auto
next
  case False
  have m1: "1 \<le> m" using cap by (rule js_max_one_jint)
  obtain chunks where ch: "chunkUserIds userIds (jint m) = Some chunks" "concat chunks = userIds"
    using chunkUserIds_Some[OF m1, of userIds] by auto
  have some: "\<exists>c\<in>set chunks. c \<noteq> []" using ch(2) ne by auto
  from ok[unfolded buildGhostPayloads_classic_eq[OF ne False] cap ch(1)]
  obtain cp where "classic_for nfc chatId t (classic_marker t) cp
         (coalesce (maxTextLength opts) DEFAULT_MAX_TEXT) (coalesce (onOverflow opts) OvSplit)
         chunks [] = Some (Inr ps)"
    by (auto split: if_splits)
  from classic_for_partial[OF this] some show ?thesis by auto
qed

lemma integer_option_limit:
  "integer_option x \<Longrightarrow> \<exists>k. coalesce x DEFAULT_MAX_TEXT = jint k"
  by (cases x) (auto simp: integer_option_def coalesce_def DEFAULT_MAX_TEXT_def)

text \<open>
  C10. A cap \<open>maxPerMessage\<close> below 1, whole or not, is raised to 1: with such a cap
  \<open>buildGhostPayloads\<close> does exactly what it does with the cap 1. When it returns
  for a list of recipients that is not empty, the result is not empty. For a
  limit \<open>maxTextLength\<close> that is absent or an integer it ends.
\<close>

theorem nonpositive_cap_is_one:
  assumes "js_lt m (jint 1)"
  shows "buildGhostPayloads nfc chatId userIds template (opts\<lparr>maxPerMessage := Some m\<rparr>)
           = buildGhostPayloads nfc chatId userIds template
               (opts\<lparr>maxPerMessage := Some (jint 1)\<rparr>)
         \<and> (integer_option (maxTextLength opts)
            \<longrightarrow> (\<exists>r. buildGhostPayloads nfc chatId userIds template
                        (opts\<lparr>maxPerMessage := Some m\<rparr>) = Some r))
         \<and> (userIds \<noteq> []
            \<longrightarrow> buildGhostPayloads nfc chatId userIds template (opts\<lparr>maxPerMessage := Some m\<rparr>)
                  \<noteq> Some (Inr []))"
proof (intro conjI impI)
  have cap: "js_max (jint 1) (coalesce (maxPerMessage (opts\<lparr>maxPerMessage := Some m\<rparr>))
               (jint 100)) = jint 1"
    using assms by (simp add: coalesce_def js_max_below_one)
  show "buildGhostPayloads nfc chatId userIds template (opts\<lparr>maxPerMessage := Some m\<rparr>)
           = buildGhostPayloads nfc chatId userIds template
               (opts\<lparr>maxPerMessage := Some (jint 1)\<rparr>)"
    using assms by (rule buildGhostPayloads_clamp)
  {
    assume "integer_option (maxTextLength opts)"
    then obtain k where "coalesce (maxTextLength (opts\<lparr>maxPerMessage := Some m\<rparr>))
                           DEFAULT_MAX_TEXT = jint k"
      using integer_option_limit by auto
    from buildGhostPayloads_integer_run[OF cap this]
    show "\<exists>r. buildGhostPayloads nfc chatId userIds template
                (opts\<lparr>maxPerMessage := Some m\<rparr>) = Some r"
      by blast
  }
  {
    assume ne: "userIds \<noteq> []"
    show "buildGhostPayloads nfc chatId userIds template (opts\<lparr>maxPerMessage := Some m\<rparr>)
                  \<noteq> Some (Inr [])"
    proof
      assume "buildGhostPayloads nfc chatId userIds template (opts\<lparr>maxPerMessage := Some m\<rparr>)
                  = Some (Inr [])"
      from buildGhostPayloads_nonempty[OF cap ne this] show False by simp
    qed
  }
qed

theorem nonpositive_cap_is_one_witness:
  "js_lt (jint 0) (jint 1)
   \<and> buildGhostPayloads (\<lambda>s. s) (ChatNum 5) [10, 20]
        (empty_template\<lparr>before := Some [0x41]\<rparr>) (default_options\<lparr>maxPerMessage := Some (jint 0)\<rparr>)
      = Some (Inr [\<lparr>chat_id = ChatNum 5, ptext = [0x41, 0x200B],
                     entities = [\<lparr>type' = text_mention, offset = 1, length' = 1, user = 10\<rparr>]\<rparr>,
                   \<lparr>chat_id = ChatNum 5, ptext = [0x41, 0x200B],
                     entities = [\<lparr>type' = text_mention, offset = 1, length' = 1, user = 20\<rparr>]\<rparr>])
   \<and> integer_option (maxTextLength default_options)
   \<and> [10, 20 :: int] \<noteq> []"
proof -
  have one: "buildGhostPayloads (\<lambda>s. s) (ChatNum 5) [10, 20]
        (empty_template\<lparr>before := Some [0x41]\<rparr>)
        (default_options\<lparr>maxPerMessage := Some (jint 1)\<rparr>)
      = Some (Inr [\<lparr>chat_id = ChatNum 5, ptext = [0x41, 0x200B],
                     entities = [\<lparr>type' = text_mention, offset = 1, length' = 1, user = 10\<rparr>]\<rparr>,
                   \<lparr>chat_id = ChatNum 5, ptext = [0x41, 0x200B],
                     entities = [\<lparr>type' = text_mention, offset = 1, length' = 1, user = 20\<rparr>]\<rparr>])"
    by code_simp
  have lt: "js_lt (jint 0) (jint 1)" by simp
  have io: "integer_option (maxTextLength default_options)"
    by (simp add: default_options_def)
  note t = nonpositive_cap_is_one[OF lt, of "\<lambda>s. s" "ChatNum 5" "[10, 20]"
      "empty_template\<lparr>before := Some [0x41]\<rparr>" default_options]
  have run: "buildGhostPayloads (\<lambda>s. s) (ChatNum 5) [10, 20]
        (empty_template\<lparr>before := Some [0x41]\<rparr>) (default_options\<lparr>maxPerMessage := Some (jint 0)\<rparr>)
      = Some (Inr [\<lparr>chat_id = ChatNum 5, ptext = [0x41, 0x200B],
                     entities = [\<lparr>type' = text_mention, offset = 1, length' = 1, user = 10\<rparr>]\<rparr>,
                   \<lparr>chat_id = ChatNum 5, ptext = [0x41, 0x200B],
                     entities = [\<lparr>type' = text_mention, offset = 1, length' = 1, user = 20\<rparr>]\<rparr>])"
    using t[THEN conjunct1] one by simp
  show ?thesis by (intro conjI lt run io) simp
qed

section \<open>Limits that are not integers\<close>

text \<open>
  The options are never validated. A classic-mode run whose capacity passes the
  guard \<open>capacity <= 0\<close> without reaching 1 (NaN, or a fraction below 1) takes no
  recipient in a pass of the splitting loop and never ends under the policy
  \<open>"split"\<close>.
\<close>

lemma classic_run_never_ends:
  assumes ne: "userIds \<noteq> []" and cl: "\<not> smartMode t"
    and ch: "chunkUserIds userIds (js_max (jint 1) (coalesce (maxPerMessage opts) (jint 100)))
               = Some (chunk # chunks)"
    and inc: "\<not> js_includes (nfc (coalesce (before t) [])) (classic_marker t)"
             "\<not> js_includes (nfc (coalesce (after t) [])) (classic_marker t)"
    and cap: "js_max (jint 0)
                (js_sub (coalesce (maxTextLength opts) DEFAULT_MAX_TEXT)
                   (jint (int (length (nfc (coalesce (before t) [])))
                          + int (length (nfc (coalesce (after t) [])))))) = cp"
    and guard: "\<not> js_le cp (jint 0)"
    and ov: "coalesce (onOverflow opts) OvSplit = OvSplit"
    and stuck: "chunk \<noteq> []"
      "js_slice chunk (jint 0) (js_min (jint (int (length chunk))) cp) = []"
      "js_slice_from chunk (js_min (jint (int (length chunk))) cp) = chunk"
    and it: "classic_iteration nfc chatId t (classic_marker t)
               (coalesce (maxTextLength opts) DEFAULT_MAX_TEXT) [] = Inr p"
  shows "buildGhostPayloads nfc chatId userIds t opts = None"
proof -
  have w: "classic_while nfc chatId t (classic_marker t) cp
             (coalesce (maxTextLength opts) DEFAULT_MAX_TEXT) OvSplit chunk [] = None"
  proof (cases "classic_while nfc chatId t (classic_marker t) cp
                  (coalesce (maxTextLength opts) DEFAULT_MAX_TEXT) OvSplit chunk []")
    case None
    then show ?thesis .
  next
    case (Some y)
    from classic_while_stuck[OF Some] stuck it show ?thesis by blast
  qed
  show ?thesis
    unfolding buildGhostPayloads_classic_eq[OF ne cl] ch cap ov
    using inc guard w by simp
qed

text \<open>
  C9. \<open>buildGhostPayloads\<close> should end on every input. In classic mode the guard
  \<open>capacity <= 0\<close> is all that stands before the splitting loop, and it lets
  through a capacity that is NaN or a fraction below 1. With \<open>before = "A"\<close>, one
  recipient and \<open>maxTextLength\<close> NaN, or 1.5 (capacity 0.5), every pass takes
  \<open>slice(0, take) = []\<close>, pushes a payload without mentions and leaves \<open>remaining\<close>
  as it was: the call never returns.
\<close>

theorem unvalidated_limit_never_ends:
  "buildGhostPayloads (\<lambda>s. s) (ChatNum 5) [10] (empty_template\<lparr>before := Some [0x41]\<rparr>)
     (default_options\<lparr>maxTextLength := Some NaN\<rparr>) = None
   \<and> buildGhostPayloads (\<lambda>s. s) (ChatNum 5) [10] (empty_template\<lparr>before := Some [0x41]\<rparr>)
       (default_options\<lparr>maxTextLength := Some (Num (3 / 2))\<rparr>) = None"
proof
  let ?t = "empty_template\<lparr>before := Some [0x41]\<rparr>"
  have ne: "[10 :: int] \<noteq> []" by simp
  have cl: "\<not> smartMode ?t" by code_simp
  have inc: "\<not> js_includes ((\<lambda>s. s) (coalesce (before ?t) [])) (classic_marker ?t)"
    "\<not> js_includes ((\<lambda>s. s) (coalesce (after ?t) [])) (classic_marker ?t)"
    by code_simp+
  show "buildGhostPayloads (\<lambda>s. s) (ChatNum 5) [10] ?t
          (default_options\<lparr>maxTextLength := Some NaN\<rparr>) = None"
  proof (rule classic_run_never_ends[OF ne cl _ inc, where chunk = "[10]" and chunks = "[]"
           and cp = NaN
           and p = "\<lparr>chat_id = ChatNum 5, ptext = [0x41], entities = []\<rparr>"])
    show "chunkUserIds [10] (js_max (jint 1)
            (coalesce (maxPerMessage (default_options\<lparr>maxTextLength := Some NaN\<rparr>)) (jint 100)))
          = Some [[10]]" by code_simp
    show "js_max (jint 0)
            (js_sub (coalesce (maxTextLength (default_options\<lparr>maxTextLength := Some NaN\<rparr>))
                       DEFAULT_MAX_TEXT)
               (jint (int (length ((\<lambda>s. s) (coalesce (before ?t) [])))
                      + int (length ((\<lambda>s. s) (coalesce (after ?t) [])))))) = NaN"
      by code_simp
    show "\<not> js_le NaN (jint 0)" by code_simp
    show "coalesce (onOverflow (default_options\<lparr>maxTextLength := Some NaN\<rparr>)) OvSplit = OvSplit"
      by code_simp
    show "[10 :: int] \<noteq> []" by simp
    show "js_slice [10 :: int] (jint 0) (js_min (jint (int (length [10 :: int]))) NaN) = []"
      by code_simp
    show "js_slice_from [10 :: int] (js_min (jint (int (length [10 :: int]))) NaN) = [10]"
      by code_simp
    show "classic_iteration (\<lambda>s. s) (ChatNum 5) ?t (classic_marker ?t)
            (coalesce (maxTextLength (default_options\<lparr>maxTextLength := Some NaN\<rparr>))
               DEFAULT_MAX_TEXT) []
          = Inr \<lparr>chat_id = ChatNum 5, ptext = [0x41], entities = []\<rparr>"
      by code_simp
  qed
  show "buildGhostPayloads (\<lambda>s. s) (ChatNum 5) [10] ?t
          (default_options\<lparr>maxTextLength := Some (Num (3 / 2))\<rparr>) = None"
  proof (rule classic_run_never_ends[OF ne cl _ inc, where chunk = "[10]" and chunks = "[]"
           and cp = "Num (1 / 2)"
           and p = "\<lparr>chat_id = ChatNum 5, ptext = [0x41], entities = []\<rparr>"])
    show "chunkUserIds [10] (js_max (jint 1)
            (coalesce (maxPerMessage (default_options\<lparr>maxTextLength := Some (Num (3 / 2))\<rparr>))
               (jint 100)))
          = Some [[10]]" by code_simp
    show "js_max (jint 0)
            (js_sub (coalesce (maxTextLength (default_options\<lparr>maxTextLength := Some (Num (3 / 2))\<rparr>))
                       DEFAULT_MAX_TEXT)
               (jint (int (length ((\<lambda>s. s) (coalesce (before ?t) [])))
                      + int (length ((\<lambda>s. s) (coalesce (after ?t) [])))))) = Num (1 / 2)"
      by code_simp
    show "\<not> js_le (Num (1 / 2)) (jint 0)" by code_simp
    show "coalesce (onOverflow (default_options\<lparr>maxTextLength := Some (Num (3 / 2))\<rparr>)) OvSplit
            = OvSplit"
      by code_simp
    show "[10 :: int] \<noteq> []" by simp
    show "js_slice [10 :: int] (jint 0) (js_min (jint (int (length [10 :: int]))) (Num (1 / 2)))
            = []"
      by code_simp
    show "js_slice_from [10 :: int] (js_min (jint (int (length [10 :: int]))) (Num (1 / 2)))
            = [10]"
      by code_simp
    show "classic_iteration (\<lambda>s. s) (ChatNum 5) ?t (classic_marker ?t)
            (coalesce (maxTextLength (default_options\<lparr>maxTextLength := Some (Num (3 / 2))\<rparr>))
               DEFAULT_MAX_TEXT) []
          = Inr \<lparr>chat_id = ChatNum 5, ptext = [0x41], entities = []\<rparr>"
      by code_simp
  qed
qed

text \<open>
  C4. When \<open>buildGhostPayloads\<close> returns, the recipients of its payloads should be
  \<open>userIds\<close>. With \<open>maxTextLength\<close> NaN the smart-mode guard \<open>allowed === 0\<close> is
  passed with \<open>allowed\<close> NaN: the batch \<open>slice(cursor, NaN)\<close> is empty, the cursor
  becomes NaN and the loop ends. The call returns one payload without mentions
  and recipient 10 is in no payload. With \<open>maxPerMessage\<close> NaN, classic mode gets
  the single chunk \<open>[]\<close> and returns no payload at all.
\<close>

theorem unvalidated_limit_loses_recipients:
  "buildGhostPayloads (\<lambda>s. s) (ChatNum 5) [10] (empty_template\<lparr>message := Some [0x48, 0x69]\<rparr>)
     (default_options\<lparr>maxTextLength := Some NaN\<rparr>)
   = Some (Inr [\<lparr>chat_id = ChatNum 5, ptext = [0x48, 0x69], entities = []\<rparr>])
   \<and> concat (map (\<lambda>p. map user (entities p))
         [\<lparr>chat_id = ChatNum 5, ptext = [0x48, 0x69], entities = []\<rparr>]) \<noteq> [10]
   \<and> buildGhostPayloads (\<lambda>s. s) (ChatNum 5) [10] (empty_template\<lparr>before := Some [0x41]\<rparr>)
       (default_options\<lparr>maxPerMessage := Some NaN\<rparr>)
     = Some (Inr [])"
  by code_simp

text \<open>
  C5. With a cap \<open>maxPerMessage \<ge> 1\<close>, no payload should have more entities than
  the cap, nor a text longer than \<open>maxTextLength\<close>. The cap 1.5 passes
  \<open>Math.max(1, ...)\<close> unchanged, and \<open>slice\<close> truncates the fractional bounds of the
  chunks: three recipients give the chunks \<open>[1]\<close> and \<open>[2, 3]\<close>, and the second
  payload has 2 entities. With \<open>maxTextLength\<close> NaN the check
  \<open>text.length > maxTextLength\<close> is false for every text, and the payload returned
  has a text of 2 code units, which is not \<open>\<le>\<close> NaN.
\<close>

theorem unvalidated_cap_exceeded:
  "js_le (jint 1) (Num (3 / 2))
   \<and> buildGhostPayloads (\<lambda>s. s) (ChatNum 5) [1, 2, 3] (empty_template\<lparr>before := Some [0x41]\<rparr>)
       (default_options\<lparr>maxPerMessage := Some (Num (3 / 2))\<rparr>)
     = Some (Inr [\<lparr>chat_id = ChatNum 5, ptext = [0x41, 0x200B],
                    entities = [\<lparr>type' = text_mention, offset = 1, length' = 1, user = 1\<rparr>]\<rparr>,
                  \<lparr>chat_id = ChatNum 5, ptext = [0x41, 0x200B, 0x200B],
                    entities = [\<lparr>type' = text_mention, offset = 1, length' = 1, user = 2\<rparr>,
                                \<lparr>type' = text_mention, offset = 2, length' = 1, user = 3\<rparr>]\<rparr>])
   \<and> \<not> js_le (jint 2) (Num (3 / 2))
   \<and> buildGhostPayloads (\<lambda>s. s) (ChatNum 5) [10] (empty_template\<lparr>message := Some [0x48, 0x69]\<rparr>)
       (default_options\<lparr>maxTextLength := Some NaN\<rparr>)
     = Some (Inr [\<lparr>chat_id = ChatNum 5, ptext = [0x48, 0x69], entities = []\<rparr>])
   \<and> \<not> js_le (jint (int (length [0x48, 0x69 :: cu]))) NaN"
  by code_simp

end
